theory Spec2Isabelle
  imports Main
begin

section \<open>Python text primitives used by dnstool\<close>

text \<open>
  Python strings are modelled as HOL strings; a character stands for a code point
  below 256.  Only the string operations that \<^verbatim>\<open>cli.py\<close> calls are modelled:
  \<^verbatim>\<open>str.strip()\<close>, \<^verbatim>\<open>str.startswith\<close>, the \<^verbatim>\<open>in\<close> operator, \<^verbatim>\<open>str.split(sep)\<close>,
  \<^verbatim>\<open>str.replace\<close>, the formatting of an \<^verbatim>\<open>int\<close> inside an f-string, and the
  text-mode file operations \<^verbatim>\<open>read\<close>, \<^verbatim>\<open>readlines\<close>, \<^verbatim>\<open>write\<close>, \<^verbatim>\<open>writelines\<close>.
\<close>

abbreviation LF :: char where
  "LF \<equiv> CHR 0x0A"

abbreviation CR :: char where
  "CR \<equiv> CHR 0x0D"

text \<open>\<^verbatim>\<open>str.isspace\<close> on one character: the white space of Python below code point 256.\<close>

definition isspace :: "char \<Rightarrow> bool" where
  "isspace c =
     (let n = (of_char c :: nat)
      in (9 \<le> n \<and> n \<le> 13) \<or> (28 \<le> n \<and> n \<le> 32) \<or> n = 133 \<or> n = 160)"

text \<open>\<^verbatim>\<open>s.strip()\<close>: white space removed at both ends.\<close>

definition strip :: "string \<Rightarrow> string" where
  "strip s = rev (dropWhile isspace (rev (dropWhile isspace s)))"

text \<open>\<^verbatim>\<open>s.startswith(p)\<close>.\<close>

definition startswith :: "string \<Rightarrow> string \<Rightarrow> bool" where
  "startswith s p = (take (length p) s = p)"

text \<open>\<^verbatim>\<open>sub in s\<close>: \<open>sub\<close> occurs in \<open>s\<close> at some position.\<close>

fun py_contains :: "string \<Rightarrow> string \<Rightarrow> bool" where
  "py_contains sub [] = (sub = [])"
| "py_contains sub (c # cs) = (startswith (c # cs) sub \<or> py_contains sub cs)"

text \<open>\<^verbatim>\<open>s.split(sep)\<close> for a separator of one character; the result is never empty.\<close>

fun split :: "char \<Rightarrow> string \<Rightarrow> string list" where
  "split sep [] = [[]]"
| "split sep (c # cs) =
     (if c = sep then [] # split sep cs
      else (case split sep cs of
              [] \<Rightarrow> [[c]]
            | p # ps \<Rightarrow> (c # p) # ps))"

text \<open>
  \<^verbatim>\<open>s.replace(old, new)\<close>: every occurrence of \<open>old\<close>, found from left to right
  without overlap, is replaced; the inserted text is not scanned again.
\<close>

function replace_nonempty :: "string \<Rightarrow> string \<Rightarrow> string \<Rightarrow> string" where
  "replace_nonempty old new [] = []"
| "replace_nonempty old new (c # cs) =
     (if old \<noteq> [] \<and> startswith (c # cs) old
      then new @ replace_nonempty old new (drop (length old) (c # cs))
      else c # replace_nonempty old new cs)"
  by pat_completeness auto
termination
  by (relation "measure (\<lambda>(old, new, s). length s)") auto

definition replace :: "string \<Rightarrow> string \<Rightarrow> string \<Rightarrow> string" where
  "replace old new s =
     (if old = [] then new @ concat (map (\<lambda>c. c # new) s)
      else replace_nonempty old new s)"

text \<open>\<^verbatim>\<open>str(n)\<close> for an integer, as an f-string renders it.\<close>

definition digit_char :: "nat \<Rightarrow> char" where
  "digit_char d = ''0123456789'' ! d"

function str_nat :: "nat \<Rightarrow> string" where
  "str_nat n = (if n < 10 then [digit_char n] else str_nat (n div 10) @ [digit_char (n mod 10)])"
  by pat_completeness auto
termination
  by (relation "measure (\<lambda>n. n)") auto

declare str_nat.simps [simp del]

definition str_int :: "int \<Rightarrow> string" where
  "str_int i = (if i < 0 then CHR ''-'' # str_nat (nat (- i)) else str_nat (nat i))"

text \<open>
  Reading a file opened in text mode with the default \<^verbatim>\<open>newline=None\<close>: the line
  endings \<^verbatim>\<open>\r\n\<close> and \<^verbatim>\<open>\r\<close> arrive as \<^verbatim>\<open>\n\<close>.  Writing on Linux stores the text
  as it is.
\<close>

fun universal_newlines :: "string \<Rightarrow> string" where
  "universal_newlines [] = []"
| "universal_newlines [c] = [if c = CR then LF else c]"
| "universal_newlines (c # d # cs) =
     (if c = CR \<and> d = LF then LF # universal_newlines cs
      else if c = CR then LF # universal_newlines (d # cs)
      else c # universal_newlines (d # cs))"

text \<open>Cutting a text into lines, each line keeping its \<^verbatim>\<open>\n\<close>.\<close>

fun split_lines :: "string \<Rightarrow> string list" where
  "split_lines [] = []"
| "split_lines (c # cs) =
     (if c = LF then [c] # split_lines cs
      else (case split_lines cs of
              [] \<Rightarrow> [[c]]
            | l # ls \<Rightarrow> (c # l) # ls))"

text \<open>\<^verbatim>\<open>f.read()\<close> and \<^verbatim>\<open>f.readlines()\<close> on the stored text of a file.\<close>

definition read_text :: "string \<Rightarrow> string" where
  "read_text raw = universal_newlines raw"

definition readlines :: "string \<Rightarrow> string list" where
  "readlines raw = split_lines (universal_newlines raw)"

section \<open>The world dnstool acts on\<close>

text \<open>
  The two fixed paths, the effects a run has besides the files' contents, and the
  exceptions that leave a command.  A file is \<open>None\<close> while it does not exist.
  Input and output failures other than a missing file (permissions, a missing
  directory, a text that does not decode, a missing \<^verbatim>\<open>systemctl\<close>) are not modelled.
\<close>

datatype path = CORE_FILE | ZONE_FILE

datatype effect = Printed string | Wrote path | Appended path | Reloaded

datatype error = CalledProcessError | InterfaceError | ValueError | FileNotFoundError path

record world =
  core_file :: "string option"
  zone_file :: "string option"
  trace :: "effect list"

definition emit :: "effect \<Rightarrow> world \<Rightarrow> world" where
  "emit e w = w\<lparr>trace := trace w @ [e]\<rparr>"

text \<open>\<^verbatim>\<open>CoreDNS.reload_coredns\<close>: \<^verbatim>\<open>systemctl restart coredns\<close> with \<^verbatim>\<open>check=False\<close>.\<close>

definition reload_coredns :: "world \<Rightarrow> world" where
  "reload_coredns w = emit Reloaded w"

section \<open>Init\<close>

text \<open>
  An \<^verbatim>\<open>ipaddress.IPv4Network\<close>: the network address as a number below \<open>2 ^ 32\<close> and
  the prefix length; \<^verbatim>\<open>str\<close> renders it as a dotted quad, a slash and the length.
\<close>

record ipv4network =
  network_address :: nat
  prefixlen :: nat

definition str_ipv4network :: "ipv4network \<Rightarrow> string" where
  "str_ipv4network n =
     str_nat (network_address n div 2 ^ 24 mod 256) @ ''.'' @
     str_nat (network_address n div 2 ^ 16 mod 256) @ ''.'' @
     str_nat (network_address n div 2 ^ 8 mod 256) @ ''.'' @
     str_nat (network_address n mod 256) @ ''/'' @ str_nat (prefixlen n)"

text \<open>
  What the two external commands give: \<^verbatim>\<open>__get_cidr_from_interface__\<close> as a whole
  (the \<^verbatim>\<open>ip\<close> command, its JSON and the network built from it), and the standard
  output of \<^verbatim>\<open>/usr/bin/hostname\<close>.
\<close>

record env =
  cidr_from_interface :: "error + ipv4network"
  hostname_stdout :: "error + string"

text \<open>
  \<^verbatim>\<open>Init.__get_zone_from_hostname__\<close>: \<^verbatim>\<open>zone, _ = result.stdout.split("-")\<close> unpacks
  exactly two parts and raises \<^verbatim>\<open>ValueError\<close> on any other number.
\<close>

definition get_zone_from_hostname :: "error + string \<Rightarrow> error + string" where
  "get_zone_from_hostname result =
     (case result of
        Inl e \<Rightarrow> Inl e
      | Inr stdout \<Rightarrow>
          (case split (CHR ''-'') stdout of
             [zone, _] \<Rightarrow> Inr (zone @ ''.orbitlab.internal'')
           | _ \<Rightarrow> Inl ValueError))"

text \<open>The four strings \<^verbatim>\<open>Init.__create_zone_file__\<close> hands to \<^verbatim>\<open>writelines\<close>.\<close>

definition origin_line :: "string \<Rightarrow> string" where
  "origin_line zone_name = ''$ORIGIN '' @ zone_name @ ''.'' @ [LF]"

definition soa_block :: "string \<Rightarrow> string" where
  "soa_block zone_name =
     ''@   3600 IN SOA ns1.'' @ zone_name @ ''. admin.'' @ zone_name @ ''. ('' @ [LF] @
     ''        1 3600 600 86400 3600'' @ [LF] @ '')'' @ [LF]"

definition ns_line :: "string \<Rightarrow> string" where
  "ns_line zone_name = ''    IN NS ns1.'' @ zone_name @ ''.'' @ [LF]"

definition ns_a_line :: string where
  "ns_a_line = ''ns1 IN A 127.0.0.1'' @ [LF]"

definition zone_file_items :: "string \<Rightarrow> string list" where
  "zone_file_items zone_name =
     [origin_line zone_name, soa_block zone_name, ns_line zone_name, ns_a_line]"

definition create_zone_file :: "string \<Rightarrow> world \<Rightarrow> world" where
  "create_zone_file zone_name w =
     (if zone_file w \<noteq> None then w
      else emit (Wrote ZONE_FILE) (w\<lparr>zone_file := Some (concat (zone_file_items zone_name))\<rparr>))"

definition acl_prefix :: string where
  "acl_prefix = ''# ACL''"

definition zone_prefix :: string where
  "zone_prefix = ''# ZONE''"

definition acl_block :: "ipv4network \<Rightarrow> string" where
  "acl_block sector_cidr =
     ''acl {'' @ [LF] @
     ''        allow net '' @ str_ipv4network sector_cidr @ [LF] @
     ''        drop'' @ [LF] @
     ''    }''"

definition zone_block :: "string \<Rightarrow> string" where
  "zone_block zone_name =
     ''file /etc/coredns/zone.db '' @ zone_name @ '' {'' @ [LF] @
     ''        fallthrough'' @ [LF] @
     ''    }''"

text \<open>\<^verbatim>\<open>Init.run\<close>.  The result is the exception that left it, if any, and the world after.\<close>

definition run :: "env \<Rightarrow> world \<Rightarrow> error option \<times> world" where
  "run e w =
     (case cidr_from_interface e of
        Inl err \<Rightarrow> (Some err, w)
      | Inr sector_cidr \<Rightarrow>
     (case get_zone_from_hostname (hostname_stdout e) of
        Inl err \<Rightarrow> (Some err, w)
      | Inr zone_name \<Rightarrow>
     (case core_file w of
        None \<Rightarrow> (Some (FileNotFoundError CORE_FILE), w)
      | Some raw \<Rightarrow>
          (let data = read_text raw in
           if \<not> py_contains acl_prefix data
           then (None, emit (Printed ''Already initialized.'') w)
           else (None,
                 create_zone_file zone_name
                   (emit (Wrote CORE_FILE)
                      (w\<lparr>core_file :=
                           Some (replace zone_prefix (zone_block zone_name)
                                   (replace acl_prefix (acl_block sector_cidr) data))\<rparr>)))))))"

section \<open>RecordManagement\<close>

text \<open>The line \<^verbatim>\<open>f"{args.hostname} {args.ttl} IN A {args.ip}\n"\<close>.\<close>

definition record_line :: "string \<Rightarrow> int \<Rightarrow> string \<Rightarrow> string" where
  "record_line hostname ttl ip = hostname @ '' '' @ str_int ttl @ '' IN A '' @ ip @ [LF]"

text \<open>
  \<^verbatim>\<open>RecordManagement.add_record\<close>: mode \<^verbatim>\<open>"a"\<close> creates a missing file and writes at
  the end of an existing one.
\<close>

definition add_record :: "string \<Rightarrow> int \<Rightarrow> string \<Rightarrow> world \<Rightarrow> world" where
  "add_record hostname ttl ip w =
     reload_coredns
       (emit (Printed (''Added A Record: '' @ hostname @ '' -> '' @ ip))
          (emit (Appended ZONE_FILE)
             (w\<lparr>zone_file :=
                  Some ((case zone_file w of None \<Rightarrow> [] | Some raw \<Rightarrow> raw)
                        @ record_line hostname ttl ip)\<rparr>)))"

definition forbidden :: "string list" where
  "forbidden = [''$ORIGIN'', ''@'', ''ns1'', '' '']"

text \<open>\<^verbatim>\<open>RecordManagement.delete_record\<close>.\<close>

definition delete_record :: "string \<Rightarrow> world \<Rightarrow> error option \<times> world" where
  "delete_record arg w =
     (let hostname = strip arg in
      if hostname = [] then (None, emit (Printed ''No hostname provided'') w)
      else if list_ex (\<lambda>f. hostname = f) forbidden
      then (None, emit (Printed (''Hostname is forbidden: '' @ hostname)) w)
      else (case zone_file w of
              None \<Rightarrow> (Some (FileNotFoundError ZONE_FILE), w)
            | Some raw \<Rightarrow>
                (let lines = readlines raw;
                     new_lines = filter (\<lambda>line. \<not> startswith line (hostname @ '' '')) lines
                 in if length new_lines = length lines
                    then (None, emit (Printed (''Record not found: '' @ hostname)) w)
                    else (None,
                          reload_coredns
                            (emit (Printed (''Deleted A Record: '' @ hostname))
                               (emit (Wrote ZONE_FILE)
                                  (w\<lparr>zone_file := Some (concat new_lines)\<rparr>)))))))"

section \<open>Notions the statements below use\<close>

text \<open>
  A text of whole lines is empty or ends with \<^verbatim>\<open>\n\<close>; a one-line string holds neither
  \<^verbatim>\<open>\n\<close> nor \<^verbatim>\<open>\r\<close>; a token is non-empty and free of white space (the spec's
  hostname: a non-empty token with no embedded white space).
\<close>

definition complete_text :: "string \<Rightarrow> bool" where
  "complete_text t = (t = [] \<or> last t = LF)"

definition single_line :: "string \<Rightarrow> bool" where
  "single_line s = (LF \<notin> set s \<and> CR \<notin> set s)"

definition is_token :: "string \<Rightarrow> bool" where
  "is_token s = (s \<noteq> [] \<and> list_all (\<lambda>c. \<not> isspace c) s)"

text \<open>The stored text of the zone file, a missing file counting as empty (as mode \<^verbatim>\<open>"a"\<close> sees it).\<close>

definition zone_text :: "world \<Rightarrow> string" where
  "zone_text w = (case zone_file w of None \<Rightarrow> [] | Some raw \<Rightarrow> raw)"

text \<open>
  Lines as \<^verbatim>\<open>readlines\<close> returns them: none is empty, \<^verbatim>\<open>\n\<close> stands only at the end of
  a line, and every line but the last has it.
\<close>

fun wf_lines :: "string list \<Rightarrow> bool" where
  "wf_lines [] = True"
| "wf_lines [l] = (l \<noteq> [] \<and> LF \<notin> set (butlast l))"
| "wf_lines (l # m # ls) =
     (l \<noteq> [] \<and> last l = LF \<and> LF \<notin> set (butlast l) \<and> wf_lines (m # ls))"

text \<open>
  The hostname of a line is its text before the first space.  A line is an A-record
  line when that hostname is not empty and the line holds \<^verbatim>\<open> IN A \<close>: the records
  \<^verbatim>\<open>add_record\<close> writes and the bootstrap record of \<^verbatim>\<open>ns1\<close>.  Hostnames are unique
  when no two A-record lines of the zone file have the same hostname.
\<close>

definition host_of :: "string \<Rightarrow> string" where
  "host_of line = takeWhile (\<lambda>c. c \<noteq> CHR '' '') line"

definition is_a_record :: "string \<Rightarrow> bool" where
  "is_a_record line = (host_of line \<noteq> [] \<and> py_contains '' IN A '' line)"

definition a_record_hosts :: "string \<Rightarrow> string list" where
  "a_record_hosts raw = map host_of (filter is_a_record (readlines raw))"

definition unique_hosts :: "string \<Rightarrow> bool" where
  "unique_hosts raw = distinct (a_record_hosts raw)"

definition zone_unique :: "world \<Rightarrow> bool" where
  "zone_unique w = (case zone_file w of None \<Rightarrow> True | Some raw \<Rightarrow> unique_hosts raw)"

definition zone_hosts :: "world \<Rightarrow> string list" where
  "zone_hosts w = a_record_hosts (zone_text w)"

definition zone_inv :: "world \<Rightarrow> bool" where
  "zone_inv w = (zone_unique w \<and> complete_text (read_text (zone_text w)))"

text \<open>
  The worlds reached from one without a zone file by creating the zone file, deleting
  records, and adding records whose hostname is a token that no A-record line has yet.
\<close>

inductive reachable :: "world \<Rightarrow> bool" where
  start: "zone_file w = None \<Longrightarrow> reachable w"
| create: "reachable w \<Longrightarrow> single_line zone_name \<Longrightarrow> reachable (create_zone_file zone_name w)"
| add: "reachable w \<Longrightarrow> is_token hostname \<Longrightarrow> single_line ip \<Longrightarrow>
        hostname \<notin> set (zone_hosts w) \<Longrightarrow> reachable (add_record hostname ttl ip w)"
| delete: "reachable w \<Longrightarrow> reachable (snd (delete_record arg w))"

text \<open>The number of positions of a text at which a given string occurs.\<close>

fun count_sub :: "string \<Rightarrow> string \<Rightarrow> nat" where
  "count_sub sub [] = (if sub = [] then 1 else 0)"
| "count_sub sub (c # cs) = (if startswith (c # cs) sub then 1 else 0) + count_sub sub cs"

section \<open>Auxiliary facts\<close>

lemma filter_same_length_iff:
  "length (filter P xs) = length xs \<longleftrightarrow> (\<forall>x \<in> set xs. P x)"
  by (metis filter_True length_filter_less less_irrefl)

lemma universal_newlines_id: "CR \<notin> set t \<Longrightarrow> universal_newlines t = t"
  by (induction t rule: universal_newlines.induct) auto

lemma universal_newlines_no_CR: "CR \<notin> set (universal_newlines t)"
  by (induction t rule: universal_newlines.induct) auto

lemma universal_newlines_append:
  "b = [] \<or> hd b \<noteq> LF \<Longrightarrow> universal_newlines (a @ b) = universal_newlines a @ universal_newlines b"
proof (induction a rule: universal_newlines.induct)
  case 1
  then show ?case by simp
next
  case (2 c)
  then show ?case by (cases b) auto
next
  case (3 c d cs)
  then show ?case by auto
qed

lemma concat_split_lines: "concat (split_lines t) = t"
  by (induction t) (auto split: list.splits)

lemma split_lines_Nil_iff: "split_lines t = [] \<longleftrightarrow> t = []"
  by (cases t) (auto split: list.splits)

lemma split_lines_line:
  "LF \<notin> set body \<Longrightarrow> split_lines (body @ LF # rest) = (body @ [LF]) # split_lines rest"
  by (induction body) auto

lemma split_lines_single: "l \<noteq> [] \<Longrightarrow> LF \<notin> set l \<Longrightarrow> split_lines l = [l]"
proof (induction l)
  case Nil
  then show ?case by simp
next
  case (Cons c cs)
  then show ?case
    by (cases "cs = []") (auto split: list.splits)
qed

lemma split_lines_append:
  "a = [] \<or> last a = LF \<Longrightarrow> split_lines (a @ b) = split_lines a @ split_lines b"
proof (induction a rule: split_lines.induct)
  case 1
  then show ?case by simp
next
  case (2 c cs)
  then show ?case
    by (cases cs) (auto split: list.splits if_splits simp: split_lines_Nil_iff)
qed

lemma wf_lines_split_lines: "wf_lines (split_lines t)"
proof (induction t)
  case Nil
  then show ?case by simp
next
  case (Cons c cs)
  show ?case
  proof (cases "split_lines cs")
    case Nil
    then show ?thesis by simp
  next
    case (Cons l ls)
    with Cons.IH show ?thesis
      by (cases ls) auto
  qed
qed

lemma wf_lines_Cons: "wf_lines (l # ls) \<Longrightarrow> wf_lines ls"
  by (cases ls) auto

lemma wf_lines_filter: "wf_lines ls \<Longrightarrow> wf_lines (filter P ls)"
proof (induction ls rule: wf_lines.induct)
  case 1
  then show ?case by simp
next
  case (2 l)
  then show ?case by simp
next
  case (3 l m ls)
  then have rest: "wf_lines (filter P (m # ls))" by simp
  show ?case
  proof (cases "P l")
    case True
    with 3 rest show ?thesis
      by (cases "filter P (m # ls)") auto
  next
    case False
    with rest show ?thesis by simp
  qed
qed

lemma set_butlast_last:
  assumes "l \<noteq> []"
  shows "set l = insert (last l) (set (butlast l))"
proof -
  have "set (butlast l @ [last l]) = insert (last l) (set (butlast l))"
    by simp
  then show ?thesis
    by (simp only: append_butlast_last_id [OF assms])
qed

lemma line_with_LF: "l \<noteq> [] \<Longrightarrow> last l = LF \<Longrightarrow> butlast l @ [LF] = l"
  using append_butlast_last_id [of l] by simp

lemma split_lines_concat: "wf_lines ls \<Longrightarrow> split_lines (concat ls) = ls"
proof (induction ls rule: wf_lines.induct)
  case 1
  then show ?case by simp
next
  case (2 l)
  then have l: "l \<noteq> []" and body: "LF \<notin> set (butlast l)"
    by simp_all
  show ?case
  proof (cases "last l = LF")
    case True
    have "split_lines (butlast l @ LF # []) = (butlast l @ [LF]) # split_lines []"
      using body by (rule split_lines_line)
    then show ?thesis
      using line_with_LF [OF l True] by simp
  next
    case False
    then have "LF \<notin> set l"
      using body set_butlast_last [OF l] by simp
    then show ?thesis
      using l by (simp add: split_lines_single)
  qed
next
  case (3 l m ls)
  then have l: "l \<noteq> []" and e: "last l = LF" and body: "LF \<notin> set (butlast l)"
    and rest: "split_lines (concat (m # ls)) = m # ls"
    by simp_all
  have A: "split_lines (butlast l @ LF # concat (m # ls)) = (butlast l @ [LF]) # split_lines (concat (m # ls))"
    using body by (rule split_lines_line)
  have "concat (l # m # ls) = (butlast l @ [LF]) @ concat (m # ls)"
    by (simp only: line_with_LF [OF l e] concat.simps)
  then have B: "concat (l # m # ls) = butlast l @ LF # concat (m # ls)"
    by simp
  show ?case
    by (simp only: B A rest line_with_LF [OF l e])
qed

lemma split_lines_concat_filter:
  "split_lines (concat (filter P (split_lines t))) = filter P (split_lines t)"
  by (simp add: split_lines_concat wf_lines_filter wf_lines_split_lines)

lemma set_concat_filter_split_lines: "set (concat (filter P (split_lines t))) \<subseteq> set t"
proof -
  have "set (concat (filter P (split_lines t))) \<subseteq> set (concat (split_lines t))"
    by auto
  then show ?thesis by (simp add: concat_split_lines)
qed

lemma readlines_concat_filter:
  "readlines (concat (filter P (readlines raw))) = filter P (readlines raw)"
proof -
  have "CR \<notin> set (concat (filter P (split_lines (universal_newlines raw))))"
    using set_concat_filter_split_lines universal_newlines_no_CR by blast
  then show ?thesis
    by (simp add: readlines_def universal_newlines_id split_lines_concat_filter)
qed

lemma digit_char_set: "d < 10 \<Longrightarrow> digit_char d \<in> set ''0123456789''"
  unfolding digit_char_def by (rule nth_mem) simp

lemma str_nat_digits: "c \<in> set (str_nat n) \<Longrightarrow> c \<in> set ''0123456789''"
proof (induction n rule: str_nat.induct)
  case (1 n)
  show ?case
  proof (cases "n < 10")
    case True
    then have "str_nat n = [digit_char n]"
      by (subst str_nat.simps) simp
    with 1(2) True show ?thesis
      using digit_char_set [of n] by simp
  next
    case False
    then have "str_nat n = str_nat (n div 10) @ [digit_char (n mod 10)]"
      by (subst str_nat.simps) simp
    with 1(2) have "c \<in> set (str_nat (n div 10)) \<or> c = digit_char (n mod 10)"
      by auto
    then show ?thesis
    proof
      assume "c \<in> set (str_nat (n div 10))"
      with False 1(1) show ?thesis by blast
    next
      assume "c = digit_char (n mod 10)"
      then show ?thesis
        using digit_char_set [of "n mod 10"] by simp
    qed
  qed
qed

lemma str_int_chars: "c \<in> set (str_int i) \<Longrightarrow> c \<in> set ''-0123456789''"
proof (cases "i < 0")
  case True
  assume "c \<in> set (str_int i)"
  with True have "c = CHR ''-'' \<or> c \<in> set (str_nat (nat (- i)))"
    by (simp add: str_int_def)
  then show ?thesis
    using str_nat_digits [of c "nat (- i)"] by auto
next
  case False
  assume "c \<in> set (str_int i)"
  with False have "c \<in> set (str_nat (nat i))"
    by (simp add: str_int_def)
  then show ?thesis
    using str_nat_digits [of c "nat i"] by auto
qed

lemma str_int_single_line: "LF \<notin> set (str_int i)" "CR \<notin> set (str_int i)"
  using str_int_chars [of LF i] str_int_chars [of CR i] by auto

lemma str_nat_no_hash: "CHR ''#'' \<notin> set (str_nat n)"
  using str_nat_digits [of "CHR ''#''" n] by auto


lemma split_not_Nil: "split sep s \<noteq> []"
  by (induction s) (auto split: list.splits)

lemma length_split: "length (split sep s) = Suc (count_list s sep)"
  by (induction s) (auto split: list.splits simp: split_not_Nil)

lemma hd_split: "hd (split sep s) = takeWhile (\<lambda>c. c \<noteq> sep) s"
  by (induction s) (auto split: list.splits simp: split_not_Nil)

lemma two_parts: "length ps = 2 \<Longrightarrow> ps = [hd ps, hd (tl ps)]"
  by (cases ps; cases "tl ps") auto

lemma readlines_append_line:
  assumes "complete_text (read_text raw)" and "body \<noteq> []" and "single_line body"
  shows "readlines (raw @ body @ [LF]) = readlines raw @ [body @ [LF]]"
proof -
  have hd: "hd (body @ [LF]) \<noteq> LF"
    using assms(2,3) by (cases body) (auto simp: single_line_def)
  have "universal_newlines (raw @ (body @ [LF])) = universal_newlines raw @ universal_newlines (body @ [LF])"
    using hd by (intro universal_newlines_append) simp
  also have "universal_newlines (body @ [LF]) = body @ [LF]"
    using assms(3) by (intro universal_newlines_id) (simp add: single_line_def)
  finally have "readlines (raw @ body @ [LF]) = split_lines (universal_newlines raw @ (body @ LF # []))"
    by (simp add: readlines_def)
  also have "\<dots> = split_lines (universal_newlines raw) @ split_lines (body @ LF # [])"
    using assms(1) by (intro split_lines_append) (simp add: complete_text_def read_text_def)
  also have "split_lines (body @ LF # []) = (body @ [LF]) # split_lines []"
    using assms(3) by (intro split_lines_line) (simp add: single_line_def)
  finally show ?thesis
    by (simp add: readlines_def)
qed

lemma single_line_append: "single_line (a @ b) \<longleftrightarrow> single_line a \<and> single_line b"
  by (auto simp: single_line_def)

lemma single_line_str_int: "single_line (str_int i)"
  by (simp add: single_line_def str_int_single_line)

lemma record_line_body:
  "record_line hostname ttl ip = (hostname @ '' '' @ str_int ttl @ '' IN A '' @ ip) @ [LF]"
  by (simp add: record_line_def)

lemma readlines_add_record:
  assumes "complete_text (read_text raw)" and "single_line hostname" and "single_line ip"
  shows "readlines (raw @ record_line hostname ttl ip) = readlines raw @ [record_line hostname ttl ip]"
proof -
  let ?body = "hostname @ '' '' @ str_int ttl @ '' IN A '' @ ip"
  have "single_line ?body"
    using assms(2,3) by (simp add: single_line_def str_int_single_line)
  moreover have "?body \<noteq> []"
    by simp
  ultimately have "readlines (raw @ ?body @ [LF]) = readlines raw @ [?body @ [LF]]"
    using assms(1) by (intro readlines_append_line)
  then show ?thesis
    by (simp add: record_line_def)
qed

lemma complete_text_add_record: "complete_text (raw @ record_line hostname ttl ip)"
  by (simp add: complete_text_def record_line_def)

lemma startswith_append_self: "startswith (p @ rest) p"
  by (simp add: startswith_def)

lemma record_line_startswith: "startswith (record_line hostname ttl ip) (hostname @ '' '')"
  using startswith_append_self [of "hostname @ '' ''" "str_int ttl @ '' IN A '' @ ip @ [LF]"]
  by (simp add: record_line_def)

lemma isspace_LF_CR: "isspace LF" "isspace CR" "isspace (CHR '' '')"
  by (simp_all add: isspace_def)

lemma token_chars: "is_token s \<Longrightarrow> c \<in> set s \<Longrightarrow> \<not> isspace c"
  by (simp add: is_token_def list_all_iff)

lemma token_single_line: "is_token s \<Longrightarrow> single_line s"
  unfolding single_line_def using token_chars [of s LF] token_chars [of s CR] isspace_LF_CR(1,2)
  by blast

lemma token_no_space: "is_token s \<Longrightarrow> CHR '' '' \<notin> set s"
  using token_chars [of s "CHR '' ''"] isspace_LF_CR(3) by blast

lemma dropWhile_self: "xs \<noteq> [] \<Longrightarrow> \<not> P (hd xs) \<Longrightarrow> dropWhile P xs = xs"
  by (cases xs) simp_all

lemma strip_token:
  assumes "is_token s"
  shows "strip s = s"
proof -
  have ne: "s \<noteq> []"
    using assms by (simp add: is_token_def)
  then have "hd s \<in> set s" and "hd (rev s) \<in> set s"
    by (simp_all add: hd_rev)
  then have "\<not> isspace (hd s)" and "\<not> isspace (hd (rev s))"
    using token_chars [OF assms] by blast+
  then have "dropWhile isspace s = s" and "dropWhile isspace (rev s) = rev s"
    using ne by (simp_all add: dropWhile_self)
  then show ?thesis
    by (simp add: strip_def)
qed

lemma read_text_append_line:
  assumes "body \<noteq> []" and "single_line body"
  shows "read_text (raw @ body @ [LF]) = read_text raw @ body @ [LF]"
proof -
  have hd: "hd (body @ [LF]) \<noteq> LF"
    using assms by (cases body) (auto simp: single_line_def)
  have "universal_newlines (raw @ (body @ [LF])) = universal_newlines raw @ universal_newlines (body @ [LF])"
    using hd by (intro universal_newlines_append) simp
  also have "universal_newlines (body @ [LF]) = body @ [LF]"
    using assms(2) by (intro universal_newlines_id) (simp add: single_line_def)
  finally show ?thesis
    by (simp add: read_text_def)
qed

lemma read_text_add_record:
  assumes "single_line hostname" and "single_line ip"
  shows "read_text (raw @ record_line hostname ttl ip) = read_text raw @ record_line hostname ttl ip"
proof -
  let ?body = "hostname @ '' '' @ str_int ttl @ '' IN A '' @ ip"
  have "single_line ?body"
    using assms by (simp add: single_line_def str_int_single_line)
  moreover have "?body \<noteq> []"
    by simp
  ultimately have "read_text (raw @ ?body @ [LF]) = read_text raw @ ?body @ [LF]"
    by (intro read_text_append_line)
  then show ?thesis
    by (simp add: record_line_def)
qed

lemma zone_file_add_record:
  "zone_file (add_record hostname ttl ip w) = Some (zone_text w @ record_line hostname ttl ip)"
  by (simp add: add_record_def reload_coredns_def emit_def zone_text_def)

lemma add_record_world:
  "add_record hostname ttl ip w =
     w\<lparr>zone_file := Some (zone_text w @ record_line hostname ttl ip),
        trace := trace w @
          [Appended ZONE_FILE, Printed (''Added A Record: '' @ hostname @ '' -> '' @ ip), Reloaded]\<rparr>"
  by (simp add: add_record_def reload_coredns_def emit_def zone_text_def)

lemma delete_record_matching:
  assumes "zone_file w = Some raw"
    and "strip arg = h"
    and "h \<noteq> []"
    and "h \<notin> set forbidden"
    and "\<exists>line \<in> set (readlines raw). startswith line (h @ '' '')"
  shows "delete_record arg w =
           (None,
            w\<lparr>zone_file :=
                 Some (concat (filter (\<lambda>line. \<not> startswith line (h @ '' '')) (readlines raw))),
               trace := trace w @
                 [Wrote ZONE_FILE, Printed (''Deleted A Record: '' @ h), Reloaded]\<rparr>)"
proof -
  let ?P = "\<lambda>line. \<not> startswith line (h @ '' '')"
  have "length (filter ?P (readlines raw)) \<noteq> length (readlines raw)"
    using assms(5) by (simp add: filter_same_length_iff)
  then show ?thesis
    using assms(1-4)
    by (simp add: delete_record_def Let_def emit_def reload_coredns_def list_ex_iff)
qed

lemma delete_record_no_match:
  assumes "zone_file w = Some raw"
    and "strip arg = h"
    and "h \<noteq> []"
    and "h \<notin> set forbidden"
    and "\<forall>line \<in> set (readlines raw). \<not> startswith line (h @ '' '')"
  shows "delete_record arg w = (None, w\<lparr>trace := trace w @ [Printed (''Record not found: '' @ h)]\<rparr>)"
  using assms
  by (simp add: delete_record_def Let_def emit_def list_ex_iff filter_same_length_iff)

lemma delete_record_forbidden:
  assumes "strip arg = h" and "h \<noteq> []" and "h \<in> set forbidden"
  shows "delete_record arg w = (None, w\<lparr>trace := trace w @ [Printed (''Hostname is forbidden: '' @ h)]\<rparr>)"
  using assms
  by (simp add: delete_record_def Let_def emit_def list_ex_iff)

lemma readlines_whole: "CR \<notin> set raw \<Longrightarrow> concat (readlines raw) = raw"
  by (simp add: readlines_def universal_newlines_id concat_split_lines)

lemma universal_newlines_lines:
  "list_all single_line bs \<Longrightarrow>
   universal_newlines (concat (map (\<lambda>b. b @ [LF]) bs)) = concat (map (\<lambda>b. b @ [LF]) bs)"
  by (intro universal_newlines_id) (auto simp: list_all_iff single_line_def)

lemma split_lines_lines:
  "list_all single_line bs \<Longrightarrow>
   split_lines (concat (map (\<lambda>b. b @ [LF]) bs)) = map (\<lambda>b. b @ [LF]) bs"
proof (induction bs)
  case Nil
  then show ?case by simp
next
  case (Cons b bs)
  then have "LF \<notin> set b"
    by (simp add: single_line_def)
  then have "split_lines (b @ LF # concat (map (\<lambda>b. b @ [LF]) bs))
             = (b @ [LF]) # split_lines (concat (map (\<lambda>b. b @ [LF]) bs))"
    by (rule split_lines_line)
  with Cons show ?case by simp
qed

lemma readlines_lines:
  "list_all single_line bs \<Longrightarrow>
   readlines (concat (map (\<lambda>b. b @ [LF]) bs)) = map (\<lambda>b. b @ [LF]) bs"
  by (simp add: readlines_def universal_newlines_lines split_lines_lines)

lemma zone_file_items_lines:
  "concat (zone_file_items zone_name) =
   concat (map (\<lambda>b. b @ [LF])
     [''$ORIGIN '' @ zone_name @ ''.'',
      ''@   3600 IN SOA ns1.'' @ zone_name @ ''. admin.'' @ zone_name @ ''. ('',
      ''        1 3600 600 86400 3600'',
      '')'',
      ''    IN NS ns1.'' @ zone_name @ ''.'',
      ''ns1 IN A 127.0.0.1''])"
  by (simp add: zone_file_items_def origin_line_def soa_block_def ns_line_def ns_a_line_def)

lemma readlines_zone_file_items:
  assumes "single_line zone_name"
  shows "readlines (concat (zone_file_items zone_name)) =
     [''$ORIGIN '' @ zone_name @ ''.'' @ [LF],
      ''@   3600 IN SOA ns1.'' @ zone_name @ ''. admin.'' @ zone_name @ ''. ('' @ [LF],
      ''        1 3600 600 86400 3600'' @ [LF],
      '')'' @ [LF],
      ''    IN NS ns1.'' @ zone_name @ ''.'' @ [LF],
      ''ns1 IN A 127.0.0.1'' @ [LF]]"
proof -
  have "list_all single_line
     [''$ORIGIN '' @ zone_name @ ''.'',
      ''@   3600 IN SOA ns1.'' @ zone_name @ ''. admin.'' @ zone_name @ ''. ('',
      ''        1 3600 600 86400 3600'',
      '')'',
      ''    IN NS ns1.'' @ zone_name @ ''.'',
      ''ns1 IN A 127.0.0.1'']"
    using assms by (simp add: single_line_def)
  from readlines_lines [OF this] show ?thesis
    unfolding zone_file_items_lines by simp
qed

lemma web1_line: "record_line ''web1'' 300 ''10.0.0.5'' = ''web1 300 IN A 10.0.0.5'' @ [LF]"
  by code_simp

lemma read_text_zone_file_items:
  assumes "single_line zone_name"
  shows "read_text (concat (zone_file_items zone_name)) = concat (zone_file_items zone_name)"
  unfolding read_text_def
  using assms
  by (intro universal_newlines_id)
     (simp add: zone_file_items_def origin_line_def soa_block_def ns_line_def ns_a_line_def
        single_line_def)

lemma complete_zone_file_items: "complete_text (concat (zone_file_items zone_name))"
  by (simp add: complete_text_def zone_file_items_def ns_a_line_def)

lemma no_web1_in_zone_file_items:
  assumes "single_line zone_name"
  shows "\<forall>line \<in> set (readlines (concat (zone_file_items zone_name))). \<not> startswith line ''web1 ''"
  unfolding readlines_zone_file_items [OF assms]
  by (simp add: startswith_def)

lemma create_zone_file_world:
  "zone_file w = None \<Longrightarrow>
   create_zone_file zone_name w =
     w\<lparr>zone_file := Some (concat (zone_file_items zone_name)),
        trace := trace w @ [Wrote ZONE_FILE]\<rparr>"
  by (simp add: create_zone_file_def emit_def)

lemma py_contains_append: "py_contains sub (a @ sub @ b)"
proof (induction a)
  case Nil
  show ?case
    using startswith_append_self [of sub b] by (cases "sub @ b") auto
next
  case (Cons c a)
  then show ?case by simp
qed

lemma host_of_token: "CHR '' '' \<notin> set h \<Longrightarrow> host_of (h @ CHR '' '' # rest) = h"
  by (auto simp: host_of_def takeWhile_tail)

lemma record_line_is_a_record:
  assumes "is_token hostname"
  shows "is_a_record (record_line hostname ttl ip)" and "host_of (record_line hostname ttl ip) = hostname"
proof -
  have h: "host_of (hostname @ CHR '' '' # (str_int ttl @ '' IN A '' @ ip @ [LF])) = hostname"
    using token_no_space [OF assms] by (rule host_of_token)
  then show "host_of (record_line hostname ttl ip) = hostname"
    by (simp add: record_line_def)
  have "py_contains '' IN A '' ((hostname @ '' '' @ str_int ttl) @ '' IN A '' @ (ip @ [LF]))"
    by (rule py_contains_append)
  then have "py_contains '' IN A '' (record_line hostname ttl ip)"
    by (simp add: record_line_def)
  moreover have "hostname \<noteq> []"
    using assms by (simp add: is_token_def)
  ultimately show "is_a_record (record_line hostname ttl ip)"
    using h by (simp add: is_a_record_def record_line_def)
qed

lemma a_record_hosts_add_record:
  assumes "complete_text (read_text raw)" and "is_token hostname" and "single_line ip"
  shows "a_record_hosts (raw @ record_line hostname ttl ip) = a_record_hosts raw @ [hostname]"
proof -
  have "readlines (raw @ record_line hostname ttl ip) = readlines raw @ [record_line hostname ttl ip]"
    using assms(1) token_single_line [OF assms(2)] assms(3) by (rule readlines_add_record)
  then show ?thesis
    using record_line_is_a_record [OF assms(2), of ttl ip]
    by (simp add: a_record_hosts_def)
qed

lemma a_record_hosts_filter:
  "a_record_hosts (concat (filter P (readlines raw))) = map host_of (filter P (filter is_a_record (readlines raw)))"
proof -
  have "filter is_a_record (filter P (readlines raw)) = filter P (filter is_a_record (readlines raw))"
    by (simp add: conj_commute)
  then show ?thesis
    by (simp only: a_record_hosts_def readlines_concat_filter)
qed

lemma unique_hosts_filter:
  assumes "unique_hosts raw"
  shows "unique_hosts (concat (filter P (readlines raw)))"
proof -
  have "distinct (map host_of (filter is_a_record (readlines raw)))"
    using assms by (simp add: unique_hosts_def a_record_hosts_def)
  then have "distinct (map host_of (filter P (filter is_a_record (readlines raw))))"
    by (rule distinct_map_filter)
  then show ?thesis
    by (simp only: unique_hosts_def a_record_hosts_filter)
qed

lemma zone_file_delete_record:
  "zone_file (snd (delete_record arg w)) = zone_file w
   \<or> (\<exists>raw. zone_file w = Some raw
        \<and> zone_file (snd (delete_record arg w))
            = Some (concat (filter (\<lambda>line. \<not> startswith line (strip arg @ '' '')) (readlines raw))))"
  by (auto simp: delete_record_def Let_def emit_def reload_coredns_def split: option.splits)

lemma zone_unique_delete_record:
  assumes "zone_unique w"
  shows "zone_unique (snd (delete_record arg w))"
  using zone_file_delete_record [of arg w]
proof
  assume "zone_file (snd (delete_record arg w)) = zone_file w"
  with assms show ?thesis
    by (simp add: zone_unique_def)
next
  assume "\<exists>raw. zone_file w = Some raw
        \<and> zone_file (snd (delete_record arg w))
            = Some (concat (filter (\<lambda>line. \<not> startswith line (strip arg @ '' '')) (readlines raw)))"
  then obtain raw where raw: "zone_file w = Some raw"
    and new: "zone_file (snd (delete_record arg w))
            = Some (concat (filter (\<lambda>line. \<not> startswith line (strip arg @ '' '')) (readlines raw)))"
    by blast
  from assms raw have "unique_hosts raw"
    by (simp add: zone_unique_def)
  then show ?thesis
    by (simp add: zone_unique_def new unique_hosts_filter)
qed

lemma zone_unique_add_record:
  assumes "zone_unique w" and "complete_text (read_text (zone_text w))"
    and "is_token hostname" and "single_line ip"
  shows "zone_unique (add_record hostname ttl ip w) \<longleftrightarrow> hostname \<notin> set (zone_hosts w)"
proof -
  have u: "distinct (a_record_hosts (zone_text w))"
    using assms(1) by (cases "zone_file w") (simp_all add: zone_unique_def zone_text_def unique_hosts_def a_record_hosts_def readlines_def)
  have "zone_unique (add_record hostname ttl ip w)
        = distinct (a_record_hosts (zone_text w @ record_line hostname ttl ip))"
    by (simp add: zone_unique_def zone_file_add_record unique_hosts_def)
  also have "\<dots> = distinct (a_record_hosts (zone_text w) @ [hostname])"
    by (simp only: a_record_hosts_add_record [OF assms(2-4)])
  finally show ?thesis
    using u by (simp add: zone_hosts_def)
qed

lemma unique_hosts_zone_file_items:
  assumes "single_line zone_name"
  shows "unique_hosts (concat (zone_file_items zone_name))"
proof -
  let ?l1 = "''$ORIGIN '' @ zone_name @ ''.'' @ [LF]"
  let ?l2 = "''@   3600 IN SOA ns1.'' @ zone_name @ ''. admin.'' @ zone_name @ ''. ('' @ [LF]"
  let ?l3 = "''        1 3600 600 86400 3600'' @ [LF]"
  let ?l4 = "'')'' @ [LF]"
  let ?l5 = "''    IN NS ns1.'' @ zone_name @ ''.'' @ [LF]"
  let ?l6 = "''ns1 IN A 127.0.0.1'' @ [LF]"
  have h1: "host_of ?l1 = ''$ORIGIN''" and h2: "host_of ?l2 = ''@''" and h6: "host_of ?l6 = ''ns1''"
    by (simp_all add: host_of_def)
  have n3: "\<not> is_a_record ?l3" and n5: "\<not> is_a_record ?l5"
    by (simp_all add: is_a_record_def host_of_def)
  have n4: "\<not> is_a_record ?l4"
    by (simp add: is_a_record_def startswith_def)
  have "distinct (map host_of (filter is_a_record [?l1, ?l2, ?l6]))"
    using h1 h2 h6 by (cases "is_a_record ?l1"; cases "is_a_record ?l2"; cases "is_a_record ?l6") simp_all
  moreover have "filter is_a_record [?l1, ?l2, ?l3, ?l4, ?l5, ?l6] = filter is_a_record [?l1, ?l2, ?l6]"
    using n3 n4 n5 by simp
  ultimately have "distinct (map host_of (filter is_a_record [?l1, ?l2, ?l3, ?l4, ?l5, ?l6]))"
    by (simp only:)
  then show ?thesis
    by (simp only: unique_hosts_def a_record_hosts_def readlines_zone_file_items [OF assms])
qed

lemma universal_newlines_Nil_iff: "universal_newlines t = [] \<longleftrightarrow> t = []"
  by (induction t rule: universal_newlines.induct) auto

lemma last_universal_newlines: "t \<noteq> [] \<Longrightarrow> last t = LF \<Longrightarrow> last (universal_newlines t) = LF"
  by (induction t rule: universal_newlines.induct) (auto simp: universal_newlines_Nil_iff)

lemma complete_read_text: "complete_text t \<Longrightarrow> complete_text (read_text t)"
  using last_universal_newlines [of t]
  by (auto simp: complete_text_def read_text_def universal_newlines_Nil_iff)

lemma split_lines_complete:
  "complete_text t \<Longrightarrow> l \<in> set (split_lines t) \<Longrightarrow> l \<noteq> [] \<and> last l = LF"
proof (induction t arbitrary: l)
  case Nil
  then show ?case by simp
next
  case (Cons c cs)
  show ?case
  proof (cases "c = LF")
    case True
    with Cons.prems have "complete_text cs" and "l = [LF] \<or> l \<in> set (split_lines cs)"
      by (auto simp: complete_text_def split: if_splits)
    with Cons.IH show ?thesis by auto
  next
    case False
    with Cons.prems(1) have cs: "cs \<noteq> []" "complete_text cs"
      by (auto simp: complete_text_def split: if_splits)
    then obtain m ms where ms: "split_lines cs = m # ms"
      by (cases "split_lines cs") (auto simp: split_lines_Nil_iff)
    with Cons.IH [OF cs(2)] have m: "m \<noteq> []" "last m = LF" and rest: "\<forall>x \<in> set ms. x \<noteq> [] \<and> last x = LF"
      by auto
    from Cons.prems(2) False ms have "l = c # m \<or> l \<in> set ms"
      by simp
    with m rest show ?thesis by auto
  qed
qed

lemma complete_concat:
  "\<forall>l \<in> set ls. l \<noteq> [] \<and> last l = LF \<Longrightarrow> complete_text (concat ls)"
  by (induction ls) (auto simp: complete_text_def last_append)

lemma complete_after_filter:
  assumes "complete_text (read_text raw)"
  shows "complete_text (read_text (concat (filter P (readlines raw))))"
proof -
  have "\<forall>l \<in> set (filter P (readlines raw)). l \<noteq> [] \<and> last l = LF"
    using split_lines_complete [OF assms [unfolded read_text_def]]
    by (auto simp: readlines_def)
  then have "complete_text (concat (filter P (readlines raw)))"
    by (rule complete_concat)
  then show ?thesis
    by (rule complete_read_text)
qed

lemma zone_inv_create:
  assumes "zone_inv w" and "single_line zone_name"
  shows "zone_inv (create_zone_file zone_name w)"
proof (cases "zone_file w")
  case None
  then have "zone_file (create_zone_file zone_name w) = Some (concat (zone_file_items zone_name))"
    by (simp add: create_zone_file_world)
  then show ?thesis
    using unique_hosts_zone_file_items [OF assms(2)] complete_zone_file_items [of zone_name]
    by (simp add: zone_inv_def zone_unique_def zone_text_def complete_read_text)
next
  case (Some raw)
  then have "create_zone_file zone_name w = w"
    by (simp add: create_zone_file_def)
  with assms(1) show ?thesis by simp
qed

lemma zone_inv_add:
  assumes "zone_inv w" and "is_token hostname" and "single_line ip"
    and "hostname \<notin> set (zone_hosts w)"
  shows "zone_inv (add_record hostname ttl ip w)"
proof -
  have "zone_unique (add_record hostname ttl ip w)"
    using zone_unique_add_record [of w hostname ip ttl] assms by (simp add: zone_inv_def)
  moreover have "complete_text (read_text (zone_text w @ record_line hostname ttl ip))"
    by (intro complete_read_text complete_text_add_record)
  then have "complete_text (read_text (zone_text (add_record hostname ttl ip w)))"
    by (simp add: zone_text_def zone_file_add_record)
  ultimately show ?thesis
    by (simp add: zone_inv_def)
qed

lemma zone_inv_delete:
  assumes "zone_inv w"
  shows "zone_inv (snd (delete_record arg w))"
proof -
  have u: "zone_unique (snd (delete_record arg w))"
    using assms by (simp add: zone_inv_def zone_unique_delete_record)
  have "complete_text (read_text (zone_text (snd (delete_record arg w))))"
    using zone_file_delete_record [of arg w]
  proof
    assume "zone_file (snd (delete_record arg w)) = zone_file w"
    with assms show ?thesis
      by (simp add: zone_inv_def zone_text_def)
  next
    assume "\<exists>raw. zone_file w = Some raw
        \<and> zone_file (snd (delete_record arg w))
            = Some (concat (filter (\<lambda>line. \<not> startswith line (strip arg @ '' '')) (readlines raw)))"
    then obtain raw where raw: "zone_file w = Some raw"
      and new: "zone_file (snd (delete_record arg w))
            = Some (concat (filter (\<lambda>line. \<not> startswith line (strip arg @ '' '')) (readlines raw)))"
      by blast
    from assms raw have "complete_text (read_text raw)"
      by (simp add: zone_inv_def zone_text_def)
    then show ?thesis
      by (simp add: zone_text_def new complete_after_filter)
  qed
  with u show ?thesis
    by (simp add: zone_inv_def)
qed

lemma reachable_zone_inv: "reachable w \<Longrightarrow> zone_inv w"
proof (induction rule: reachable.induct)
  case (start w)
  then show ?case
    by (simp add: zone_inv_def zone_unique_def zone_text_def read_text_def complete_text_def)
next
  case (create w zone_name)
  then show ?case by (simp add: zone_inv_create)
next
  case (add w hostname ip ttl)
  then show ?case by (simp add: zone_inv_add)
next
  case (delete w arg)
  then show ?case by (simp add: zone_inv_delete)
qed

lemma zone_unique_create:
  assumes "zone_unique w" and "single_line zone_name"
  shows "zone_unique (create_zone_file zone_name w)"
proof (cases "zone_file w")
  case None
  then have "zone_file (create_zone_file zone_name w) = Some (concat (zone_file_items zone_name))"
    by (simp add: create_zone_file_world)
  then show ?thesis
    using unique_hosts_zone_file_items [OF assms(2)] by (simp add: zone_unique_def)
next
  case (Some raw)
  then have "create_zone_file zone_name w = w"
    by (simp add: create_zone_file_def)
  with assms(1) show ?thesis by simp
qed

lemma replace_nonempty_absent:
  "sub \<noteq> [] \<Longrightarrow> count_sub sub s = 0 \<Longrightarrow> replace_nonempty sub new s = s"
  by (induction s) (auto split: if_splits)

lemma count_sub_suffix: "count_sub sub b \<le> count_sub sub (a @ b)"
  by (induction a) auto

lemma count_sub_occurrence: "sub \<noteq> [] \<Longrightarrow> 1 \<le> count_sub sub (sub @ rest)"
  using startswith_append_self [of sub rest] by (cases "sub @ rest") auto

lemma replace_nonempty_here:
  assumes "sub \<noteq> []" and "count_sub sub (sub @ rest) = 1"
  shows "replace_nonempty sub new (sub @ rest) = new @ rest"
proof -
  obtain c cs where s: "sub = c # cs"
    using assms(1) by (cases sub) auto
  have st: "startswith (c # cs @ rest) sub"
    using startswith_append_self [of sub rest] by (simp add: s)
  with assms(2) have "count_sub sub (cs @ rest) = 0"
    by (simp add: s)
  moreover have "count_sub sub rest \<le> count_sub sub (cs @ rest)"
    by (rule count_sub_suffix)
  ultimately have "count_sub sub rest = 0"
    by simp
  then have "replace_nonempty sub new rest = rest"
    using assms(1) by (simp add: replace_nonempty_absent)
  moreover have "replace_nonempty sub new (c # cs @ rest)
      = new @ replace_nonempty sub new (drop (length sub) (c # cs @ rest))"
    using st assms(1) by simp
  moreover have "drop (length sub) (c # cs @ rest) = rest"
    by (simp add: s)
  ultimately show ?thesis
    by (simp add: s)
qed

lemma replace_nonempty_once:
  "sub \<noteq> [] \<Longrightarrow> count_sub sub (pre @ sub @ rest) = 1 \<Longrightarrow>
   replace_nonempty sub new (pre @ sub @ rest) = pre @ new @ rest"
proof (induction pre)
  case Nil
  then show ?case by (simp add: replace_nonempty_here)
next
  case (Cons c pre)
  have "1 \<le> count_sub sub (sub @ rest)"
    using Cons.prems(1) by (rule count_sub_occurrence)
  also have "\<dots> \<le> count_sub sub (pre @ sub @ rest)"
    by (rule count_sub_suffix)
  finally have one: "1 \<le> count_sub sub (pre @ sub @ rest)" .
  with Cons.prems(2) have no: "\<not> startswith (c # pre @ sub @ rest) sub"
    and rest: "count_sub sub (pre @ sub @ rest) = 1"
    by (auto split: if_splits)
  from Cons.IH [OF Cons.prems(1) rest] no show ?case
    by simp
qed

lemma startswith_inside:
  assumes "p \<noteq> []" and "x \<notin> set (tl z)"
  shows "startswith (p @ x # r) z \<longleftrightarrow> length z \<le> length p \<and> startswith p z"
proof (cases "length z \<le> length p")
  case True
  then show ?thesis by (simp add: startswith_def)
next
  case False
  then have len: "length p < length z" by simp
  have "\<not> startswith (p @ x # r) z"
  proof
    assume "startswith (p @ x # r) z"
    then have eq: "take (length z) (p @ x # r) = z"
      by (simp add: startswith_def)
    have "(take (length z) (p @ x # r)) ! length p = x"
      using len by (simp add: nth_append)
    with eq have "z ! length p = x" by simp
    moreover have "0 < length p" using assms(1) by simp
    ultimately have "x \<in> set (tl z)"
      using len by (metis Suc_pred in_set_conv_nth length_tl less_diff_conv nth_tl Suc_eq_plus1)
    with assms(2) show False by simp
  qed
  with False show ?thesis by simp
qed

lemma count_sub_swap:
  assumes "x \<notin> set (tl z)" and "y \<notin> set (tl z)"
  shows "count_sub z (p @ x # r) + count_sub z (y # r') = count_sub z (p @ y # r') + count_sub z (x # r)"
proof (induction p)
  case Nil
  then show ?case by simp
next
  case (Cons c p)
  have "startswith ((c # p) @ x # r) z \<longleftrightarrow> startswith ((c # p) @ y # r') z"
    using startswith_inside [of "c # p" x z r] startswith_inside [of "c # p" y z r'] assms
    by simp
  with Cons show ?case by simp
qed

lemma count_sub_skip:
  "z \<noteq> [] \<Longrightarrow> hd z \<notin> set x \<Longrightarrow> count_sub z (x @ rest) = count_sub z rest"
proof (induction x)
  case Nil
  then show ?case by simp
next
  case (Cons c x)
  then have "\<not> startswith (c # x @ rest) z"
    by (cases z) (auto simp: startswith_def)
  with Cons show ?case by simp
qed

lemma count_zone_prefix_acl_prefix:
  "count_sub zone_prefix (acl_prefix @ rest) = count_sub zone_prefix rest"
  by (simp add: zone_prefix_def acl_prefix_def startswith_def)

lemma count_acl_prefix_zone_prefix:
  "count_sub acl_prefix (zone_prefix @ rest) = count_sub acl_prefix rest"
  by (simp add: zone_prefix_def acl_prefix_def startswith_def)

lemma str_ipv4network_no_hash: "CHR ''#'' \<notin> set (str_ipv4network n)"
  by (simp add: str_ipv4network_def str_nat_no_hash)

lemma acl_block_no_hash: "CHR ''#'' \<notin> set (acl_block sector_cidr)"
  by (simp add: acl_block_def str_ipv4network_no_hash)

lemma count_zone_prefix_acl_block:
  "count_sub zone_prefix (acl_block sector_cidr @ rest) = count_sub zone_prefix rest"
  using acl_block_no_hash [of sector_cidr]
  by (intro count_sub_skip) (simp_all add: zone_prefix_def)

lemma acl_block_Cons: "acl_block sector_cidr = CHR ''a'' # tl (acl_block sector_cidr)"
  by (simp add: acl_block_def)

lemma acl_prefix_Cons: "acl_prefix = CHR ''#'' # tl acl_prefix"
  by (simp add: acl_prefix_def)

lemma count_zone_prefix_after_acl:
  "count_sub zone_prefix (p @ acl_block sector_cidr @ rest) = count_sub zone_prefix (p @ acl_prefix @ rest)"
proof -
  let ?a = "tl (acl_block sector_cidr) @ rest" and ?m = "tl acl_prefix @ rest"
  have x: "CHR ''a'' \<notin> set (tl zone_prefix)" and y: "CHR ''#'' \<notin> set (tl zone_prefix)"
    by (simp_all add: zone_prefix_def)
  have a: "acl_block sector_cidr @ rest = CHR ''a'' # ?a"
    using acl_block_Cons [of sector_cidr] by (metis append_Cons)
  have m: "acl_prefix @ rest = CHR ''#'' # ?m"
    using acl_prefix_Cons by (metis append_Cons)
  have "count_sub zone_prefix (p @ CHR ''a'' # ?a) + count_sub zone_prefix (CHR ''#'' # ?m)
        = count_sub zone_prefix (p @ CHR ''#'' # ?m) + count_sub zone_prefix (CHR ''a'' # ?a)"
    using x y by (rule count_sub_swap)
  then have "count_sub zone_prefix (p @ acl_block sector_cidr @ rest) + count_sub zone_prefix (acl_prefix @ rest)
        = count_sub zone_prefix (p @ acl_prefix @ rest) + count_sub zone_prefix (acl_block sector_cidr @ rest)"
    by (simp only: a m)
  then show ?thesis
    by (simp only: count_zone_prefix_acl_prefix count_zone_prefix_acl_block)
qed

lemma replace_acl_then_zone:
  assumes "data = pre @ acl_prefix @ mid @ zone_prefix @ post"
    and "count_sub acl_prefix data = 1"
    and "count_sub zone_prefix data = 1"
  shows "replace zone_prefix zone (replace acl_prefix (acl_block sector_cidr) data)
         = pre @ acl_block sector_cidr @ mid @ zone @ post"
proof -
  let ?acl = "acl_block sector_cidr"
  have ne: "acl_prefix \<noteq> []" "zone_prefix \<noteq> []"
    by (simp_all add: acl_prefix_def zone_prefix_def)
  have "replace_nonempty acl_prefix ?acl (pre @ acl_prefix @ (mid @ zone_prefix @ post))
        = pre @ ?acl @ (mid @ zone_prefix @ post)"
    using ne(1) assms(2) unfolding assms(1) by (rule replace_nonempty_once)
  then have first: "replace acl_prefix ?acl data = pre @ ?acl @ mid @ zone_prefix @ post"
    using ne(1) by (simp add: replace_def assms(1))
  have "count_sub zone_prefix (pre @ ?acl @ (mid @ zone_prefix @ post)) = 1"
    using assms(3) unfolding assms(1) by (simp only: count_zone_prefix_after_acl)
  then have "count_sub zone_prefix ((pre @ ?acl @ mid) @ zone_prefix @ post) = 1"
    by simp
  with ne(2) have "replace_nonempty zone_prefix zone ((pre @ ?acl @ mid) @ zone_prefix @ post)
        = (pre @ ?acl @ mid) @ zone @ post"
    by (rule replace_nonempty_once)
  then have "replace zone_prefix zone (pre @ ?acl @ mid @ zone_prefix @ post)
        = pre @ ?acl @ mid @ zone @ post"
    using ne(2) by (simp add: replace_def)
  then show ?thesis
    by (simp only: first)
qed

lemma replace_zone_before_acl:
  assumes "data = pre @ zone_prefix @ mid @ acl_prefix @ post"
    and "count_sub acl_prefix data = 1"
    and "count_sub zone_prefix data = 1"
  shows "replace zone_prefix zone (replace acl_prefix (acl_block sector_cidr) data)
         = pre @ zone @ mid @ acl_block sector_cidr @ post"
proof -
  let ?acl = "acl_block sector_cidr"
  have ne: "acl_prefix \<noteq> []" "zone_prefix \<noteq> []"
    by (simp_all add: acl_prefix_def zone_prefix_def)
  have "count_sub acl_prefix ((pre @ zone_prefix @ mid) @ acl_prefix @ post) = 1"
    using assms(2) unfolding assms(1) by simp
  with ne(1) have "replace_nonempty acl_prefix ?acl ((pre @ zone_prefix @ mid) @ acl_prefix @ post)
        = (pre @ zone_prefix @ mid) @ ?acl @ post"
    by (rule replace_nonempty_once)
  then have first: "replace acl_prefix ?acl data = pre @ zone_prefix @ mid @ ?acl @ post"
    using ne(1) by (simp add: replace_def assms(1))
  have "count_sub zone_prefix ((pre @ zone_prefix @ mid) @ acl_prefix @ post) = 1"
    using assms(3) unfolding assms(1) by simp
  then have "count_sub zone_prefix ((pre @ zone_prefix @ mid) @ ?acl @ post) = 1"
    by (simp only: count_zone_prefix_after_acl)
  then have "count_sub zone_prefix (pre @ zone_prefix @ (mid @ ?acl @ post)) = 1"
    by simp
  with ne(2) have "replace_nonempty zone_prefix zone (pre @ zone_prefix @ (mid @ ?acl @ post))
        = pre @ zone @ (mid @ ?acl @ post)"
    by (rule replace_nonempty_once)
  then have "replace zone_prefix zone (pre @ zone_prefix @ mid @ ?acl @ post)
        = pre @ zone @ mid @ ?acl @ post"
    using ne(2) by (simp add: replace_def)
  then show ?thesis
    by (simp only: first)
qed

lemma run_marker_present:
  assumes "cidr_from_interface e = Inr sector_cidr"
    and "get_zone_from_hostname (hostname_stdout e) = Inr zone_name"
    and "core_file w = Some raw"
    and "py_contains acl_prefix (read_text raw)"
  shows "run e w =
     (None,
      create_zone_file zone_name
        (w\<lparr>core_file :=
             Some (replace zone_prefix (zone_block zone_name)
                     (replace acl_prefix (acl_block sector_cidr) (read_text raw))),
           trace := trace w @ [Wrote CORE_FILE]\<rparr>))"
  using assms by (simp add: run_def Let_def emit_def)

lemma core_file_create_zone_file: "core_file (create_zone_file zone_name w) = core_file w"
  by (simp add: create_zone_file_def emit_def)

lemma acl_block_example:
  "acl_block \<lparr>network_address = 167772160, prefixlen = 24\<rparr>
   = ''acl {'' @ [LF] @ ''        allow net 10.0.0.0/24'' @ [LF] @ ''        drop'' @ [LF] @ ''    }''"
  by (simp add: acl_block_def str_ipv4network_def str_nat.simps digit_char_def)

section \<open>The initialisation guard\<close>

text \<open>
  Claim C1.  When the Configuration Document exists and its text, as \<^verbatim>\<open>Init.run\<close> reads
  it, does not contain the ACL marker \<^verbatim>\<open># ACL\<close>, then \<^verbatim>\<open>run\<close> writes nothing: the
  document and the zone file are as before (the zone file is neither created nor
  changed) and the only effects are printed messages.  Whenever the two discovery
  steps that precede the guard succeed, \<^verbatim>\<open>run\<close> returns normally and the one message
  printed is \<^verbatim>\<open>Already initialized.\<close>
\<close>

theorem init_guard_marker_absent:
  assumes "core_file w = Some raw"
    and "\<not> py_contains acl_prefix (read_text raw)"
  shows "(cidr_from_interface e = Inr sector_cidr
            \<and> get_zone_from_hostname (hostname_stdout e) = Inr zone_name
          \<longrightarrow> run e w = (None, w\<lparr>trace := trace w @ [Printed ''Already initialized.'']\<rparr>))
         \<and> core_file (snd (run e w)) = core_file w
         \<and> zone_file (snd (run e w)) = zone_file w
         \<and> (\<exists>msgs. trace (snd (run e w)) = trace w @ map Printed msgs)"
proof -
  have prints: "\<exists>msgs. trace w @ [Printed m] = trace w @ map Printed msgs" for m
    by (rule exI [of _ "[m]"]) simp
  have none: "\<exists>msgs. trace w = trace w @ map Printed msgs"
    by (rule exI [of _ "[]"]) simp
  show ?thesis
    using assms prints none
    by (auto simp: run_def Let_def emit_def split: sum.splits)
qed

theorem init_guard_marker_absent_witness:
  "core_file \<lparr>core_file = Some ''. { acl { drop } }'', zone_file = None, trace = []\<rparr>
     = Some ''. { acl { drop } }''
   \<and> \<not> py_contains acl_prefix (read_text ''. { acl { drop } }'')
   \<and> get_zone_from_hostname (Inr (''s1-dns'' @ [LF])) = Inr ''s1.orbitlab.internal''
   \<and> run \<lparr>cidr_from_interface = Inr \<lparr>network_address = 167772160, prefixlen = 24\<rparr>,
           hostname_stdout = Inr (''s1-dns'' @ [LF])\<rparr>
        \<lparr>core_file = Some ''. { acl { drop } }'', zone_file = None, trace = []\<rparr>
      = (None,
         \<lparr>core_file = Some ''. { acl { drop } }'', zone_file = None,
            trace = [Printed ''Already initialized.'']\<rparr>)"
proof -
  let ?raw = "''. { acl { drop } }''"
  let ?w = "\<lparr>core_file = Some ?raw, zone_file = None, trace = []\<rparr>"
  let ?net = "\<lparr>network_address = 167772160, prefixlen = 24\<rparr>"
  let ?e = "\<lparr>cidr_from_interface = Inr ?net, hostname_stdout = Inr (''s1-dns'' @ [LF])\<rparr>"
  have doc: "core_file ?w = Some ?raw"
    by simp
  have absent: "\<not> py_contains acl_prefix (read_text ?raw)"
    by code_simp
  have zone: "get_zone_from_hostname (Inr (''s1-dns'' @ [LF])) = Inr ''s1.orbitlab.internal''"
    by code_simp
  from init_guard_marker_absent [OF doc absent, of ?e ?net "''s1.orbitlab.internal''"]
  have "run ?e ?w = (None, ?w\<lparr>trace := trace ?w @ [Printed ''Already initialized.'']\<rparr>)"
    using zone by simp
  with doc absent zone show ?thesis
    by simp
qed

section \<open>Deletions that are refused\<close>

text \<open>
  Claim C4.  When the trimmed hostname is empty, or is one of the reserved names, or
  the zone file exists and none of its lines starts with the trimmed hostname followed
  by a space, \<^verbatim>\<open>delete_record\<close> returns normally, leaves both files as they are and
  has exactly one effect: it prints the reason (no hostname, forbidden, or not found).
  Nothing is written and the name server is not reloaded.
\<close>

theorem delete_record_rejects:
  assumes "strip arg = []
           \<or> strip arg \<in> set forbidden
           \<or> (zone_file w = Some raw
               \<and> (\<forall>line \<in> set (readlines raw). \<not> startswith line (strip arg @ '' '')))"
  shows "delete_record arg w =
           (None,
            w\<lparr>trace := trace w @
                 [Printed (if strip arg = [] then ''No hostname provided''
                           else if strip arg \<in> set forbidden
                           then ''Hostname is forbidden: '' @ strip arg
                           else ''Record not found: '' @ strip arg)]\<rparr>)"
  using assms
  by (auto simp: delete_record_def Let_def emit_def list_ex_iff filter_same_length_iff)

theorem delete_record_rejects_witness:
  "zone_file \<lparr>core_file = None, zone_file = Some (''ns1 IN A 127.0.0.1'' @ [LF]), trace = []\<rparr>
     = Some (''ns1 IN A 127.0.0.1'' @ [LF])
   \<and> list_all (\<lambda>line. \<not> startswith line (strip ''web1'' @ '' ''))
        (readlines (''ns1 IN A 127.0.0.1'' @ [LF]))
   \<and> delete_record ''web1''
        \<lparr>core_file = None, zone_file = Some (''ns1 IN A 127.0.0.1'' @ [LF]), trace = []\<rparr>
      = (None,
         \<lparr>core_file = None, zone_file = Some (''ns1 IN A 127.0.0.1'' @ [LF]),
            trace = [Printed ''Record not found: web1'']\<rparr>)"
proof -
  let ?raw = "''ns1 IN A 127.0.0.1'' @ [LF]"
  let ?w = "\<lparr>core_file = None, zone_file = Some ?raw, trace = []\<rparr>"
  have zf: "zone_file ?w = Some ?raw"
    by simp
  have nomatch: "list_all (\<lambda>line. \<not> startswith line (strip ''web1'' @ '' '')) (readlines ?raw)"
    by code_simp
  have name: "strip ''web1'' = ''web1''" "''web1'' \<notin> set forbidden"
    by code_simp+
  have "strip ''web1'' = [] \<or> strip ''web1'' \<in> set forbidden
        \<or> (zone_file ?w = Some ?raw
            \<and> (\<forall>line \<in> set (readlines ?raw). \<not> startswith line (strip ''web1'' @ '' '')))"
    using zf nomatch by (simp add: list_all_iff)
  from delete_record_rejects [OF this]
  have "delete_record ''web1'' ?w = (None, ?w\<lparr>trace := [Printed ''Record not found: web1'']\<rparr>)"
    using name by simp
  with zf nomatch show ?thesis
    by simp
qed

section \<open>Creating the zone file\<close>

text \<open>
  Claim C9.  Creating the zone file a second time, with the same or any other zone
  name, gives the world the first creation gave; and when the zone file already
  exists, creation changes nothing at all (no file, no effect).  The operation
  returns a world and has no failing branch.
\<close>

theorem create_zone_file_idempotent:
  "create_zone_file zone_name' (create_zone_file zone_name w) = create_zone_file zone_name w
   \<and> (zone_file w \<noteq> None \<longrightarrow> create_zone_file zone_name w = w)"
  by (simp add: create_zone_file_def emit_def)

theorem create_zone_file_idempotent_witness:
  "zone_file \<lparr>core_file = None, zone_file = Some ''ns1 IN A 127.0.0.1'', trace = []\<rparr> \<noteq> None
   \<and> create_zone_file ''s1.orbitlab.internal''
        \<lparr>core_file = None, zone_file = Some ''ns1 IN A 127.0.0.1'', trace = []\<rparr>
      = \<lparr>core_file = None, zone_file = Some ''ns1 IN A 127.0.0.1'', trace = []\<rparr>"
proof -
  let ?w = "\<lparr>core_file = None, zone_file = Some ''ns1 IN A 127.0.0.1'', trace = []\<rparr>"
  have h: "zone_file ?w \<noteq> None"
    by simp
  from create_zone_file_idempotent [of "''s1.orbitlab.internal''" "''s1.orbitlab.internal''" ?w]
  have "create_zone_file ''s1.orbitlab.internal'' ?w = ?w"
    using h by blast
  with h show ?thesis
    by blast
qed

section \<open>The zone name\<close>

text \<open>
  Claim C8, as amended.  The zone name is derived only from a hostname output that
  holds exactly one hyphen: it is then the text before the hyphen followed by
  \<^verbatim>\<open>.orbitlab.internal\<close>.  For every other output (no hyphen, or more than one) the
  two-name unpacking raises \<^verbatim>\<open>ValueError\<close> and no zone name is derived.
\<close>

theorem zone_from_hostname_one_hyphen:
  "get_zone_from_hostname (Inr stdout) =
     (if count_list stdout (CHR ''-'') = 1
      then Inr (takeWhile (\<lambda>c. c \<noteq> CHR ''-'') stdout @ ''.orbitlab.internal'')
      else Inl ValueError)"
proof (cases "count_list stdout (CHR ''-'') = 1")
  case True
  then have "length (split (CHR ''-'') stdout) = 2"
    by (simp add: length_split)
  then have "split (CHR ''-'') stdout = [hd (split (CHR ''-'') stdout), hd (tl (split (CHR ''-'') stdout))]"
    by (rule two_parts)
  then obtain rest where "split (CHR ''-'') stdout = [takeWhile (\<lambda>c. c \<noteq> CHR ''-'') stdout, rest]"
    by (simp add: hd_split)
  with True show ?thesis
    by (simp add: get_zone_from_hostname_def)
next
  case False
  then have "length (split (CHR ''-'') stdout) \<noteq> 2"
    by (simp add: length_split)
  with False show ?thesis
    by (auto simp: get_zone_from_hostname_def split: list.splits)
qed

text \<open>
  The claim as stated fails: on the output \<^verbatim>\<open>sector1-dns-01\<close> the first hyphen-delimited
  component is \<^verbatim>\<open>sector1\<close>, and the derivation raises instead of giving
  \<^verbatim>\<open>sector1.orbitlab.internal\<close>.
\<close>

theorem zone_from_hostname_counterexample:
  "get_zone_from_hostname (Inr (''sector1-dns-01'' @ [LF])) = Inl ValueError
   \<and> get_zone_from_hostname (Inr (''sector1-dns-01'' @ [LF])) \<noteq> Inr ''sector1.orbitlab.internal''"
  by code_simp

theorem zone_from_hostname_one_hyphen_witness:
  "count_list (''sector1-dns'' @ [LF]) (CHR ''-'') = 1
   \<and> get_zone_from_hostname (Inr (''sector1-dns'' @ [LF])) = Inr ''sector1.orbitlab.internal''"
proof -
  have h: "count_list (''sector1-dns'' @ [LF]) (CHR ''-'') = 1"
    by code_simp
  have t: "takeWhile (\<lambda>c. c \<noteq> CHR ''-'') (''sector1-dns'' @ [LF]) = ''sector1''"
    by code_simp
  from zone_from_hostname_one_hyphen [of "''sector1-dns'' @ [LF]"] h t
  have "get_zone_from_hostname (Inr (''sector1-dns'' @ [LF])) = Inr ''sector1.orbitlab.internal''"
    by simp
  with h show ?thesis by simp
qed

section \<open>What a deletion writes back\<close>

text \<open>
  Claim C10.  When the zone file exists, the trimmed hostname is neither empty nor
  reserved and at least one line starts with it followed by a space, \<^verbatim>\<open>delete_record\<close>
  returns normally, writes the zone file once, prints the deletion and reloads.  The
  text written is the concatenation of exactly the lines read that do not start with
  the hostname and a space, in their order; reading the file again gives those lines,
  each as it was read, none added and none moved.
\<close>

theorem delete_record_keeps_other_lines:
  assumes "zone_file w = Some raw"
    and "strip arg \<noteq> []"
    and "strip arg \<notin> set forbidden"
    and "\<exists>line \<in> set (readlines raw). startswith line (strip arg @ '' '')"
  shows "delete_record arg w =
           (None,
            w\<lparr>zone_file :=
                 Some (concat (filter (\<lambda>line. \<not> startswith line (strip arg @ '' ''))
                                 (readlines raw))),
               trace := trace w @
                 [Wrote ZONE_FILE, Printed (''Deleted A Record: '' @ strip arg), Reloaded]\<rparr>)
         \<and> readlines (concat (filter (\<lambda>line. \<not> startswith line (strip arg @ '' ''))
                                 (readlines raw)))
             = filter (\<lambda>line. \<not> startswith line (strip arg @ '' '')) (readlines raw)"
proof -
  let ?P = "\<lambda>line. \<not> startswith line (strip arg @ '' '')"
  have "length (filter ?P (readlines raw)) \<noteq> length (readlines raw)"
    using assms(4) by (simp add: filter_same_length_iff)
  then have "delete_record arg w =
           (None,
            w\<lparr>zone_file := Some (concat (filter ?P (readlines raw))),
               trace := trace w @
                 [Wrote ZONE_FILE, Printed (''Deleted A Record: '' @ strip arg), Reloaded]\<rparr>)"
    using assms(1-3)
    by (simp add: delete_record_def Let_def emit_def reload_coredns_def list_ex_iff)
  then show ?thesis
    by (simp add: readlines_concat_filter)
qed

theorem delete_record_keeps_other_lines_witness:
  "zone_file \<lparr>core_file = None,
              zone_file = Some (''a 1 IN A 1.1.1.1'' @ [LF] @ ''b 1 IN A 1.1.1.2'' @ [LF] @ ''c 1 IN A 1.1.1.3'' @ [LF]),
              trace = []\<rparr>
     = Some (''a 1 IN A 1.1.1.1'' @ [LF] @ ''b 1 IN A 1.1.1.2'' @ [LF] @ ''c 1 IN A 1.1.1.3'' @ [LF])
   \<and> strip '' b '' = ''b''
   \<and> ''b'' \<notin> set forbidden
   \<and> list_ex (\<lambda>line. startswith line ''b '')
        (readlines (''a 1 IN A 1.1.1.1'' @ [LF] @ ''b 1 IN A 1.1.1.2'' @ [LF] @ ''c 1 IN A 1.1.1.3'' @ [LF]))
   \<and> delete_record '' b ''
        \<lparr>core_file = None,
          zone_file = Some (''a 1 IN A 1.1.1.1'' @ [LF] @ ''b 1 IN A 1.1.1.2'' @ [LF] @ ''c 1 IN A 1.1.1.3'' @ [LF]),
          trace = []\<rparr>
      = (None,
         \<lparr>core_file = None,
           zone_file = Some (''a 1 IN A 1.1.1.1'' @ [LF] @ ''c 1 IN A 1.1.1.3'' @ [LF]),
           trace = [Wrote ZONE_FILE, Printed ''Deleted A Record: b'', Reloaded]\<rparr>)"
proof -
  let ?raw = "''a 1 IN A 1.1.1.1'' @ [LF] @ ''b 1 IN A 1.1.1.2'' @ [LF] @ ''c 1 IN A 1.1.1.3'' @ [LF]"
  let ?w = "\<lparr>core_file = None, zone_file = Some ?raw, trace = []\<rparr>"
  have zf: "zone_file ?w = Some ?raw"
    by simp
  have name: "strip '' b '' = ''b''"
    by code_simp
  have nf: "''b'' \<notin> set forbidden"
    by code_simp
  have ex: "list_ex (\<lambda>line. startswith line ''b '') (readlines ?raw)"
    by code_simp
  have e: "concat (filter (\<lambda>line. \<not> startswith line ''b '') (readlines ?raw))
           = ''a 1 IN A 1.1.1.1'' @ [LF] @ ''c 1 IN A 1.1.1.3'' @ [LF]"
    by code_simp
  have p2: "strip '' b '' \<noteq> []" and p3: "strip '' b '' \<notin> set forbidden"
    and p4: "\<exists>line \<in> set (readlines ?raw). startswith line (strip '' b '' @ '' '')"
    using nf ex by (simp_all add: name list_ex_iff)
  from delete_record_keeps_other_lines [OF zf p2 p3 p4]
  have "delete_record '' b '' ?w =
      (None, ?w\<lparr>zone_file := Some (concat (filter (\<lambda>line. \<not> startswith line ''b '') (readlines ?raw))),
         trace := trace ?w @ [Wrote ZONE_FILE, Printed (''Deleted A Record: '' @ ''b''), Reloaded]\<rparr>)"
    by (simp add: name)
  then have "delete_record '' b '' ?w =
      (None, \<lparr>core_file = None, zone_file = Some (''a 1 IN A 1.1.1.1'' @ [LF] @ ''c 1 IN A 1.1.1.3'' @ [LF]),
         trace = [Wrote ZONE_FILE, Printed ''Deleted A Record: b'', Reloaded]\<rparr>)"
    by (simp only: e) simp
  with zf name nf ex show ?thesis
    by (simp only: simp_thms)
qed

section \<open>The prefix match stops at the separating space\<close>

text \<open>
  Claim C3, as amended.  Start from a zone file made of whole lines (absent, empty, or
  ending with a line break), add a record for \<^verbatim>\<open>host1\<close> and one for \<^verbatim>\<open>host10\<close>,
  the addresses being one-line strings, and delete \<^verbatim>\<open>host1\<close>.  The deletion succeeds;
  the file then holds the earlier lines that do not start with \<^verbatim>\<open>host1\<close> and a space,
  followed by the \<^verbatim>\<open>host10\<close> line, unchanged.  The \<^verbatim>\<open>host1\<close> line is gone and the
  \<^verbatim>\<open>host10\<close> line is kept, although \<^verbatim>\<open>host1\<close> is a prefix of \<^verbatim>\<open>host10\<close>.
\<close>

theorem delete_host1_keeps_host10:
  assumes "complete_text (read_text (zone_text w))"
    and "single_line ip1"
    and "single_line ip10"
  shows "delete_record ''host1''
           (add_record ''host10'' ttl10 ip10 (add_record ''host1'' ttl1 ip1 w)) =
         (None,
          w\<lparr>zone_file :=
               Some (concat (filter (\<lambda>line. \<not> startswith line ''host1 '') (readlines (zone_text w)))
                     @ record_line ''host10'' ttl10 ip10),
             trace := trace w @
               [Appended ZONE_FILE, Printed (''Added A Record: host1 -> '' @ ip1), Reloaded,
                Appended ZONE_FILE, Printed (''Added A Record: host10 -> '' @ ip10), Reloaded,
                Wrote ZONE_FILE, Printed ''Deleted A Record: host1'', Reloaded]\<rparr>)"
proof -
  let ?z = "zone_text w"
  let ?r1 = "record_line ''host1'' ttl1 ip1"
  let ?r10 = "record_line ''host10'' ttl10 ip10"
  let ?w1 = "add_record ''host1'' ttl1 ip1 w"
  let ?w2 = "add_record ''host10'' ttl10 ip10 ?w1"
  let ?P = "\<lambda>line. \<not> startswith line ''host1 ''"
  have names: "single_line ''host1''" "single_line ''host10''"
    by (simp_all add: single_line_def)
  have w1: "?w1 = w\<lparr>zone_file := Some (?z @ ?r1),
        trace := trace w @ [Appended ZONE_FILE, Printed (''Added A Record: host1 -> '' @ ip1), Reloaded]\<rparr>"
    using add_record_world [of "''host1''" ttl1 ip1 w] by simp
  then have z1: "zone_text ?w1 = ?z @ ?r1"
    by (simp add: zone_text_def)
  have w2: "?w2 = w\<lparr>zone_file := Some (?z @ ?r1 @ ?r10),
        trace := trace w @
          [Appended ZONE_FILE, Printed (''Added A Record: host1 -> '' @ ip1), Reloaded,
           Appended ZONE_FILE, Printed (''Added A Record: host10 -> '' @ ip10), Reloaded]\<rparr>"
    using add_record_world [of "''host10''" ttl10 ip10 ?w1] z1 by (simp add: w1)
  have l1: "readlines (?z @ ?r1) = readlines ?z @ [?r1]"
    using assms(1) names(1) assms(2) by (rule readlines_add_record)
  have "complete_text (read_text (?z @ ?r1))"
    using read_text_add_record [OF names(1) assms(2), of ?z ttl1]
    by (simp add: complete_text_def record_line_def)
  then have "readlines ((?z @ ?r1) @ ?r10) = readlines (?z @ ?r1) @ [?r10]"
    using names(2) assms(3) by (rule readlines_add_record)
  then have l2: "readlines (?z @ ?r1 @ ?r10) = readlines ?z @ [?r1, ?r10]"
    by (simp add: l1)
  have m1: "\<not> ?P ?r1"
    using record_line_startswith [of "''host1''" ttl1 ip1] by simp
  have m10: "?P ?r10"
    by (simp add: startswith_def record_line_def)
  have kept: "filter ?P (readlines (?z @ ?r1 @ ?r10)) = filter ?P (readlines ?z) @ [?r10]"
    using m1 m10 by (simp add: l2)
  have found: "\<exists>line \<in> set (readlines (?z @ ?r1 @ ?r10)). startswith line (''host1'' @ '' '')"
    using m1 by (simp add: l2)
  have name: "strip ''host1'' = ''host1''" "''host1'' \<noteq> []" "''host1'' \<notin> set forbidden"
    by (simp_all add: strip_def isspace_def forbidden_def)
  have zf: "zone_file ?w2 = Some (?z @ ?r1 @ ?r10)"
    by (simp add: w2)
  have "delete_record ''host1'' ?w2 =
      (None, ?w2\<lparr>zone_file := Some (concat (filter ?P (readlines (?z @ ?r1 @ ?r10)))),
        trace := trace ?w2 @ [Wrote ZONE_FILE, Printed (''Deleted A Record: '' @ ''host1''), Reloaded]\<rparr>)"
    using delete_record_matching [OF zf name found] by simp
  then show ?thesis
    by (simp only: kept) (simp add: w2)
qed

text \<open>
  The claim as stated, for any zone file, fails on a file whose last line has no line
  break: \<^verbatim>\<open>add_record\<close> writes the \<^verbatim>\<open>host1\<close> record onto the end of that line, no
  line then starts with \<^verbatim>\<open>host1\<close> and a space, and the deletion prints that the record
  was not found and removes nothing.
\<close>

theorem delete_host1_keeps_host10_counterexample:
  "\<not> complete_text (read_text (zone_text
        \<lparr>core_file = None, zone_file = Some ''ns1 IN A 127.0.0.1'', trace = []\<rparr>))
   \<and> readlines (''ns1 IN A 127.0.0.1host1 300 IN A 10.0.0.1'' @ [LF]
                  @ ''host10 300 IN A 10.0.0.10'' @ [LF])
      = [''ns1 IN A 127.0.0.1host1 300 IN A 10.0.0.1'' @ [LF],
         ''host10 300 IN A 10.0.0.10'' @ [LF]]
   \<and> delete_record ''host1''
        (add_record ''host10'' 300 ''10.0.0.10''
          (add_record ''host1'' 300 ''10.0.0.1''
            \<lparr>core_file = None, zone_file = Some ''ns1 IN A 127.0.0.1'', trace = []\<rparr>))
      = (None,
         \<lparr>core_file = None,
           zone_file = Some (''ns1 IN A 127.0.0.1host1 300 IN A 10.0.0.1'' @ [LF]
                             @ ''host10 300 IN A 10.0.0.10'' @ [LF]),
           trace = [Appended ZONE_FILE, Printed ''Added A Record: host1 -> 10.0.0.1'', Reloaded,
                    Appended ZONE_FILE, Printed ''Added A Record: host10 -> 10.0.0.10'', Reloaded,
                    Printed ''Record not found: host1'']\<rparr>)"
  by code_simp

theorem delete_host1_keeps_host10_witness:
  "complete_text (read_text (zone_text
      \<lparr>core_file = None, zone_file = Some (''ns1 IN A 127.0.0.1'' @ [LF]), trace = []\<rparr>))
   \<and> single_line ''10.0.0.1''
   \<and> single_line ''10.0.0.10''
   \<and> zone_file (snd (delete_record ''host1''
        (add_record ''host10'' 300 ''10.0.0.10''
          (add_record ''host1'' 300 ''10.0.0.1''
            \<lparr>core_file = None, zone_file = Some (''ns1 IN A 127.0.0.1'' @ [LF]), trace = []\<rparr>))))
      = Some (''ns1 IN A 127.0.0.1'' @ [LF] @ ''host10 300 IN A 10.0.0.10'' @ [LF])"
proof -
  let ?w = "\<lparr>core_file = None, zone_file = Some (''ns1 IN A 127.0.0.1'' @ [LF]), trace = []\<rparr>"
  have h1: "complete_text (read_text (zone_text ?w))"
    by code_simp
  have h2: "single_line ''10.0.0.1''" and h3: "single_line ''10.0.0.10''"
    by code_simp+
  have e: "concat (filter (\<lambda>line. \<not> startswith line ''host1 '') (readlines (zone_text ?w)))
             @ record_line ''host10'' 300 ''10.0.0.10''
           = ''ns1 IN A 127.0.0.1'' @ [LF] @ ''host10 300 IN A 10.0.0.10'' @ [LF]"
    by code_simp
  have "zone_file (snd (delete_record ''host1''
        (add_record ''host10'' 300 ''10.0.0.10'' (add_record ''host1'' 300 ''10.0.0.1'' ?w))))
      = Some (concat (filter (\<lambda>line. \<not> startswith line ''host1 '') (readlines (zone_text ?w)))
             @ record_line ''host10'' 300 ''10.0.0.10'')"
    by (simp only: delete_host1_keeps_host10 [OF h1 h2 h3] snd_conv world.simps)
  with h1 h2 h3 show ?thesis
    by (simp only: e simp_thms)
qed

section \<open>Adding a record and deleting it again\<close>

text \<open>
  Claim C2, as amended.  Let the zone file exist, hold no carriage return and consist
  of whole lines, none of which starts with the hostname followed by a space; let the
  hostname be non-empty, unchanged by trimming, not reserved and on one line, and the
  address on one line.  Then \<^verbatim>\<open>add_record\<close> followed by \<^verbatim>\<open>delete_record\<close> of the same
  hostname returns normally and leaves the zone file with exactly its content before
  the addition (both files are as before; the effects are the two writes, prints and
  reloads).
\<close>

theorem add_then_delete_restores:
  assumes "zone_file w = Some raw"
    and "CR \<notin> set raw"
    and "complete_text raw"
    and "\<forall>line \<in> set (readlines raw). \<not> startswith line (hostname @ '' '')"
    and "hostname \<noteq> []"
    and "strip hostname = hostname"
    and "hostname \<notin> set forbidden"
    and "single_line hostname"
    and "single_line ip"
  shows "delete_record hostname (add_record hostname ttl ip w) =
         (None,
          w\<lparr>trace := trace w @
               [Appended ZONE_FILE, Printed (''Added A Record: '' @ hostname @ '' -> '' @ ip), Reloaded,
                Wrote ZONE_FILE, Printed (''Deleted A Record: '' @ hostname), Reloaded]\<rparr>)"
proof -
  let ?r = "record_line hostname ttl ip"
  let ?w1 = "add_record hostname ttl ip w"
  let ?P = "\<lambda>line. \<not> startswith line (hostname @ '' '')"
  have z: "zone_text w = raw"
    using assms(1) by (simp add: zone_text_def)
  have rt: "read_text raw = raw"
    using assms(2) by (simp add: read_text_def universal_newlines_id)
  have w1: "?w1 = w\<lparr>zone_file := Some (raw @ ?r),
        trace := trace w @
          [Appended ZONE_FILE, Printed (''Added A Record: '' @ hostname @ '' -> '' @ ip), Reloaded]\<rparr>"
    using add_record_world [of hostname ttl ip w] by (simp add: z)
  have zf: "zone_file ?w1 = Some (raw @ ?r)"
    by (simp add: w1)
  have ls: "readlines (raw @ ?r) = readlines raw @ [?r]"
    using assms(3,8,9) by (intro readlines_add_record) (simp add: rt)
  have m: "\<not> ?P ?r"
    using record_line_startswith [of hostname ttl ip] by simp
  have "filter ?P (readlines raw) = readlines raw"
    using assms(4) by simp
  then have kept: "filter ?P (readlines (raw @ ?r)) = readlines raw"
    using m by (simp add: ls)
  have found: "\<exists>line \<in> set (readlines (raw @ ?r)). startswith line (hostname @ '' '')"
    using m by (simp add: ls)
  have "delete_record hostname ?w1 =
      (None, ?w1\<lparr>zone_file := Some (concat (filter ?P (readlines (raw @ ?r)))),
        trace := trace ?w1 @ [Wrote ZONE_FILE, Printed (''Deleted A Record: '' @ hostname), Reloaded]\<rparr>)"
    using zf assms(6,5,7) found by (rule delete_record_matching)
  then have "delete_record hostname ?w1 =
      (None, ?w1\<lparr>zone_file := Some raw,
        trace := trace ?w1 @ [Wrote ZONE_FILE, Printed (''Deleted A Record: '' @ hostname), Reloaded]\<rparr>)"
    by (simp only: kept readlines_whole [OF assms(2)])
  moreover have "w\<lparr>zone_file := Some raw\<rparr> = w"
    using assms(1) by (cases w) simp
  ultimately show ?thesis
    by (simp add: w1)
qed

text \<open>
  The claim as stated, for every zone-file content and every hostname, fails.  After
  adding \<^verbatim>\<open>ns1\<close> the deletion is refused as forbidden and the added line stays; after
  adding \<^verbatim>\<open>web1\<close> to a file that already has a \<^verbatim>\<open>web1\<close> line the deletion removes
  both lines.  In each case the number of lines differs from before the addition, so
  no reordering of lines reconciles the two contents.
\<close>

theorem add_then_delete_counterexample:
  "delete_record ''ns1''
     (add_record ''ns1'' 300 ''10.0.0.9''
        \<lparr>core_file = None, zone_file = Some (''ns1 IN A 127.0.0.1'' @ [LF]), trace = []\<rparr>)
   = (None,
      \<lparr>core_file = None,
        zone_file = Some (''ns1 IN A 127.0.0.1'' @ [LF] @ ''ns1 300 IN A 10.0.0.9'' @ [LF]),
        trace = [Appended ZONE_FILE, Printed ''Added A Record: ns1 -> 10.0.0.9'', Reloaded,
                 Printed ''Hostname is forbidden: ns1'']\<rparr>)
   \<and> ''ns1 IN A 127.0.0.1'' @ [LF] @ ''ns1 300 IN A 10.0.0.9'' @ [LF] \<noteq> ''ns1 IN A 127.0.0.1'' @ [LF]
   \<and> delete_record ''web1''
     (add_record ''web1'' 300 ''10.0.0.5''
        \<lparr>core_file = None,
          zone_file = Some (''ns1 IN A 127.0.0.1'' @ [LF] @ ''web1 60 IN A 10.0.0.4'' @ [LF]),
          trace = []\<rparr>)
   = (None,
      \<lparr>core_file = None,
        zone_file = Some (''ns1 IN A 127.0.0.1'' @ [LF]),
        trace = [Appended ZONE_FILE, Printed ''Added A Record: web1 -> 10.0.0.5'', Reloaded,
                 Wrote ZONE_FILE, Printed ''Deleted A Record: web1'', Reloaded]\<rparr>)
   \<and> ''ns1 IN A 127.0.0.1'' @ [LF] \<noteq> ''ns1 IN A 127.0.0.1'' @ [LF] @ ''web1 60 IN A 10.0.0.4'' @ [LF]"
  by code_simp

text \<open>
  The remaining hypotheses are needed as well: a hostname that trimming changes, a file
  whose last line has no line break, a file with a carriage return, and an address
  holding a line break each leave a content other than the one before the addition.
\<close>

lemma add_then_delete_other_failures:
  "zone_file (snd (delete_record '' web1''
     (add_record '' web1'' 300 ''10.0.0.5''
        \<lparr>core_file = None, zone_file = Some (''ns1 IN A 127.0.0.1'' @ [LF]), trace = []\<rparr>)))
   = Some (''ns1 IN A 127.0.0.1'' @ [LF] @ '' web1 300 IN A 10.0.0.5'' @ [LF])
   \<and> zone_file (snd (delete_record ''web1''
     (add_record ''web1'' 300 ''10.0.0.5''
        \<lparr>core_file = None, zone_file = Some ''ns1 IN A 127.0.0.1'', trace = []\<rparr>)))
   = Some (''ns1 IN A 127.0.0.1web1 300 IN A 10.0.0.5'' @ [LF])
   \<and> zone_file (snd (delete_record ''web1''
     (add_record ''web1'' 300 ''10.0.0.5''
        \<lparr>core_file = None, zone_file = Some (''ns1 IN A 127.0.0.1'' @ [CR, LF]), trace = []\<rparr>)))
   = Some (''ns1 IN A 127.0.0.1'' @ [LF])
   \<and> zone_file (snd (delete_record ''web1''
     (add_record ''web1'' 300 (''10.0.0.5'' @ [LF] @ ''x'')
        \<lparr>core_file = None, zone_file = Some (''ns1 IN A 127.0.0.1'' @ [LF]), trace = []\<rparr>)))
   = Some (''ns1 IN A 127.0.0.1'' @ [LF] @ ''x'' @ [LF])"
  by code_simp

theorem add_then_delete_restores_witness:
  "zone_file \<lparr>core_file = None, zone_file = Some (''ns1 IN A 127.0.0.1'' @ [LF]), trace = []\<rparr>
     = Some (''ns1 IN A 127.0.0.1'' @ [LF])
   \<and> CR \<notin> set (''ns1 IN A 127.0.0.1'' @ [LF])
   \<and> complete_text (''ns1 IN A 127.0.0.1'' @ [LF])
   \<and> list_all (\<lambda>line. \<not> startswith line (''web1'' @ '' ''))
        (readlines (''ns1 IN A 127.0.0.1'' @ [LF]))
   \<and> ''web1'' \<noteq> []
   \<and> strip ''web1'' = ''web1''
   \<and> ''web1'' \<notin> set forbidden
   \<and> single_line ''web1''
   \<and> single_line ''10.0.0.5''
   \<and> delete_record ''web1''
        (add_record ''web1'' 300 ''10.0.0.5''
           \<lparr>core_file = None, zone_file = Some (''ns1 IN A 127.0.0.1'' @ [LF]), trace = []\<rparr>)
      = (None,
         \<lparr>core_file = None, zone_file = Some (''ns1 IN A 127.0.0.1'' @ [LF]),
           trace = [Appended ZONE_FILE, Printed ''Added A Record: web1 -> 10.0.0.5'', Reloaded,
                    Wrote ZONE_FILE, Printed ''Deleted A Record: web1'', Reloaded]\<rparr>)"
proof -
  let ?raw = "''ns1 IN A 127.0.0.1'' @ [LF]"
  let ?w = "\<lparr>core_file = None, zone_file = Some ?raw, trace = []\<rparr>"
  have h1: "zone_file ?w = Some ?raw"
    by simp
  have h2: "CR \<notin> set ?raw"
    by code_simp
  have h3: "complete_text ?raw"
    by code_simp
  have h4: "list_all (\<lambda>line. \<not> startswith line (''web1'' @ '' '')) (readlines ?raw)"
    by code_simp
  then have h4': "\<forall>line \<in> set (readlines ?raw). \<not> startswith line (''web1'' @ '' '')"
    by (simp only: list_all_iff)
  have h5: "''web1'' \<noteq> []"
    by simp
  have h6: "strip ''web1'' = ''web1''"
    by code_simp
  have h7: "''web1'' \<notin> set forbidden"
    by code_simp
  have h8: "single_line ''web1''" and h9: "single_line ''10.0.0.5''"
    by code_simp+
  from add_then_delete_restores [OF h1 h2 h3 h4' h5 h6 h7 h8 h9, of 300]
  have "delete_record ''web1'' (add_record ''web1'' 300 ''10.0.0.5'' ?w) =
         (None,
          \<lparr>core_file = None, zone_file = Some ?raw,
            trace = [Appended ZONE_FILE, Printed ''Added A Record: web1 -> 10.0.0.5'', Reloaded,
                Wrote ZONE_FILE, Printed ''Deleted A Record: web1'', Reloaded]\<rparr>)"
    by simp
  with h1 h2 h3 h4 h5 h6 h7 h8 h9 show ?thesis
    by (simp only: simp_thms)
qed

section \<open>The example scenario\<close>

text \<open>
  Claim C6, as amended.  On a missing zone file and a one-line zone name, creation
  writes the four structural items, which make six lines of text (the SOA item spans
  three).  Adding \<^verbatim>\<open>web1\<close> with ttl 300 and address 10.0.0.5 appends the line
  \<^verbatim>\<open>web1 300 IN A 10.0.0.5\<close>, giving seven lines; deleting \<^verbatim>\<open>web1\<close> restores the
  created content of six lines; deleting \<^verbatim>\<open>web1\<close> again prints that the record was not
  found and changes no file.
\<close>

theorem example_scenario:
  assumes "zone_file w = None" and "single_line zone_name"
  shows "let w1 = create_zone_file zone_name w;
             w2 = add_record ''web1'' 300 ''10.0.0.5'' w1;
             w3 = snd (delete_record ''web1'' w2)
         in zone_file w1 = Some (concat (zone_file_items zone_name))
            \<and> length (zone_file_items zone_name) = 4
            \<and> length (readlines (zone_text w1)) = 6
            \<and> zone_text w2 = zone_text w1 @ ''web1 300 IN A 10.0.0.5'' @ [LF]
            \<and> length (readlines (zone_text w2)) = 7
            \<and> delete_record ''web1'' w2 =
                 (None,
                  w2\<lparr>zone_file := zone_file w1,
                     trace := trace w2 @
                       [Wrote ZONE_FILE, Printed ''Deleted A Record: web1'', Reloaded]\<rparr>)
            \<and> length (readlines (zone_text w3)) = 6
            \<and> delete_record ''web1'' w3 =
                 (None, w3\<lparr>trace := trace w3 @ [Printed ''Record not found: web1'']\<rparr>)"
proof -
  let ?Z = "concat (zone_file_items zone_name)"
  let ?r = "''web1 300 IN A 10.0.0.5'' @ [LF]"
  let ?w1 = "create_zone_file zone_name w"
  let ?w2 = "add_record ''web1'' 300 ''10.0.0.5'' ?w1"
  let ?d = "[Wrote ZONE_FILE, Printed ''Deleted A Record: web1'', Reloaded]"
  let ?w3 = "?w2\<lparr>zone_file := Some ?Z, trace := trace ?w2 @ ?d\<rparr>"
  let ?P = "\<lambda>line. \<not> startswith line (''web1'' @ '' '')"
  have w1: "?w1 = w\<lparr>zone_file := Some ?Z, trace := trace w @ [Wrote ZONE_FILE]\<rparr>"
    using assms(1) by (rule create_zone_file_world)
  have zf1: "zone_file ?w1 = Some ?Z" and zt1: "zone_text ?w1 = ?Z"
    by (simp_all add: w1 zone_text_def)
  have items: "length (zone_file_items zone_name) = 4"
    by (simp add: zone_file_items_def)
  have six: "length (readlines ?Z) = 6"
    by (simp add: readlines_zone_file_items [OF assms(2)])
  have zf2: "zone_file ?w2 = Some (?Z @ ?r)"
    using zone_file_add_record [of "''web1''" 300 "''10.0.0.5''" ?w1]
    by (simp only: zt1 web1_line)
  then have zt2: "zone_text ?w2 = ?Z @ ?r"
    by (simp add: zone_text_def)
  have "complete_text (read_text ?Z)"
    by (simp add: read_text_zone_file_items [OF assms(2)] complete_zone_file_items)
  then have "readlines (?Z @ record_line ''web1'' 300 ''10.0.0.5'')
             = readlines ?Z @ [record_line ''web1'' 300 ''10.0.0.5'']"
    by (rule readlines_add_record) (simp_all add: single_line_def)
  then have ls: "readlines (?Z @ ?r) = readlines ?Z @ [?r]"
    by (simp only: web1_line)
  then have seven: "length (readlines (?Z @ ?r)) = 7"
    using six by simp
  have fresh: "\<forall>line \<in> set (readlines ?Z). ?P line"
    using no_web1_in_zone_file_items [OF assms(2)] by simp
  have m: "\<not> ?P ?r"
    by (simp add: startswith_def)
  have "filter ?P (readlines ?Z) = readlines ?Z"
    using fresh by simp
  then have kept: "filter ?P (readlines (?Z @ ?r)) = readlines ?Z"
    using m by (simp only: ls filter_append filter.simps if_False append_Nil2)
  have whole: "concat (readlines ?Z) = ?Z"
    using read_text_zone_file_items [OF assms(2)]
    by (simp add: readlines_def read_text_def concat_split_lines)
  have found: "\<exists>line \<in> set (readlines (?Z @ ?r)). startswith line (''web1'' @ '' '')"
    using m by (simp only: ls) simp
  have name: "strip ''web1'' = ''web1''" "''web1'' \<noteq> []" "''web1'' \<notin> set forbidden"
    by (simp_all add: strip_def isspace_def forbidden_def)
  have "delete_record ''web1'' ?w2 =
      (None, ?w2\<lparr>zone_file := Some (concat (filter ?P (readlines (?Z @ ?r)))),
         trace := trace ?w2 @ [Wrote ZONE_FILE, Printed (''Deleted A Record: '' @ ''web1''), Reloaded]\<rparr>)"
    using zf2 name found by (rule delete_record_matching)
  then have del: "delete_record ''web1'' ?w2 = (None, ?w3)"
    by (simp only: kept whole) simp
  have zf3: "zone_file ?w3 = Some ?Z" and zt3: "zone_text ?w3 = ?Z"
    by (simp_all add: zone_text_def)
  have "delete_record ''web1'' ?w3 =
      (None, ?w3\<lparr>trace := trace ?w3 @ [Printed (''Record not found: '' @ ''web1'')]\<rparr>)"
    using zf3 name fresh by (rule delete_record_no_match)
  then have nf: "delete_record ''web1'' ?w3 =
      (None, ?w3\<lparr>trace := trace ?w3 @ [Printed ''Record not found: web1'']\<rparr>)"
    by simp
  have s3: "snd (delete_record ''web1'' ?w2) = ?w3"
    by (simp only: del snd_conv)
  show ?thesis
    unfolding Let_def s3
    using zf1 items six zt1 zt2 seven del zt3 nf
    by (simp only: simp_thms)
qed

text \<open>
  The line counts of the claim, four after creation and five after the addition, are
  not those of the file: it has six lines and then seven.
\<close>

theorem example_scenario_counterexample:
  "length (readlines (zone_text (create_zone_file ''s1.orbitlab.internal''
      \<lparr>core_file = None, zone_file = None, trace = []\<rparr>))) = 6
   \<and> length (readlines (zone_text (create_zone_file ''s1.orbitlab.internal''
      \<lparr>core_file = None, zone_file = None, trace = []\<rparr>))) \<noteq> 4
   \<and> length (readlines (zone_text (add_record ''web1'' 300 ''10.0.0.5''
      (create_zone_file ''s1.orbitlab.internal''
        \<lparr>core_file = None, zone_file = None, trace = []\<rparr>)))) = 7
   \<and> length (readlines (zone_text (add_record ''web1'' 300 ''10.0.0.5''
      (create_zone_file ''s1.orbitlab.internal''
        \<lparr>core_file = None, zone_file = None, trace = []\<rparr>)))) \<noteq> 5"
  by code_simp

theorem example_scenario_witness:
  "zone_file \<lparr>core_file = None, zone_file = None, trace = []\<rparr> = None
   \<and> single_line ''s1.orbitlab.internal''
   \<and> (let w1 = create_zone_file ''s1.orbitlab.internal''
                   \<lparr>core_file = None, zone_file = None, trace = []\<rparr>;
             w2 = add_record ''web1'' 300 ''10.0.0.5'' w1;
             w3 = snd (delete_record ''web1'' w2)
         in zone_file w1 = Some (concat (zone_file_items ''s1.orbitlab.internal''))
            \<and> length (zone_file_items ''s1.orbitlab.internal'') = 4
            \<and> length (readlines (zone_text w1)) = 6
            \<and> zone_text w2 = zone_text w1 @ ''web1 300 IN A 10.0.0.5'' @ [LF]
            \<and> length (readlines (zone_text w2)) = 7
            \<and> delete_record ''web1'' w2 =
                 (None,
                  w2\<lparr>zone_file := zone_file w1,
                     trace := trace w2 @
                       [Wrote ZONE_FILE, Printed ''Deleted A Record: web1'', Reloaded]\<rparr>)
            \<and> length (readlines (zone_text w3)) = 6
            \<and> delete_record ''web1'' w3 =
                 (None, w3\<lparr>trace := trace w3 @ [Printed ''Record not found: web1'']\<rparr>))"
proof -
  have h1: "zone_file \<lparr>core_file = None, zone_file = None, trace = []\<rparr> = None"
    by simp
  have h2: "single_line ''s1.orbitlab.internal''"
    by code_simp
  from h1 h2 example_scenario [OF h1 h2] show ?thesis
    by (intro conjI)
qed

section \<open>Uniqueness of hostnames\<close>

text \<open>
  Claim C5, as amended.  In every world reached by creating the zone file, deleting
  records and adding records under hostnames that no A-record line has yet, each
  hostname occurs in at most one A-record line.  Creation (with a one-line zone name)
  and \<^verbatim>\<open>delete_record\<close> preserve this uniqueness always.  \<^verbatim>\<open>add_record\<close>, which checks
  nothing, preserves it exactly when the hostname is not yet the hostname of an
  A-record line (for a zone file of whole lines, a token hostname and a one-line
  address).
\<close>

theorem uniqueness_of_hostnames:
  "(reachable w \<longrightarrow> zone_unique w)
   \<and> (zone_unique w \<and> single_line zone_name \<longrightarrow> zone_unique (create_zone_file zone_name w))
   \<and> (zone_unique w \<longrightarrow> zone_unique (snd (delete_record arg w)))
   \<and> (zone_unique w \<and> complete_text (read_text (zone_text w)) \<and> is_token hostname \<and> single_line ip
        \<longrightarrow> (zone_unique (add_record hostname ttl ip w) \<longleftrightarrow> hostname \<notin> set (zone_hosts w)))"
proof (intro conjI impI)
  assume "reachable w"
  then show "zone_unique w"
    using reachable_zone_inv by (simp add: zone_inv_def)
next
  assume "zone_unique w \<and> single_line zone_name"
  then show "zone_unique (create_zone_file zone_name w)"
    by (simp add: zone_unique_create)
next
  assume "zone_unique w"
  then show "zone_unique (snd (delete_record arg w))"
    by (rule zone_unique_delete_record)
next
  assume "zone_unique w \<and> complete_text (read_text (zone_text w)) \<and> is_token hostname \<and> single_line ip"
  then show "zone_unique (add_record hostname ttl ip w) \<longleftrightarrow> hostname \<notin> set (zone_hosts w)"
    by (simp add: zone_unique_add_record)
qed

text \<open>
  The claim as stated fails: adding \<^verbatim>\<open>web1\<close> twice to the created zone file is
  accepted and leaves two A-record lines for \<^verbatim>\<open>web1\<close>.
\<close>

theorem uniqueness_of_hostnames_counterexample:
  "zone_unique (create_zone_file ''s1.orbitlab.internal''
      \<lparr>core_file = None, zone_file = None, trace = []\<rparr>)
   \<and> zone_hosts (add_record ''web1'' 300 ''10.0.0.6'' (add_record ''web1'' 300 ''10.0.0.5''
      (create_zone_file ''s1.orbitlab.internal''
        \<lparr>core_file = None, zone_file = None, trace = []\<rparr>)))
      = [''ns1'', ''web1'', ''web1'']
   \<and> \<not> zone_unique (add_record ''web1'' 300 ''10.0.0.6'' (add_record ''web1'' 300 ''10.0.0.5''
      (create_zone_file ''s1.orbitlab.internal''
        \<lparr>core_file = None, zone_file = None, trace = []\<rparr>)))"
  by code_simp

theorem uniqueness_of_hostnames_witness:
  "reachable (add_record ''web1'' 300 ''10.0.0.5''
      (create_zone_file ''s1'' \<lparr>core_file = None, zone_file = None, trace = []\<rparr>))
   \<and> zone_unique (add_record ''web1'' 300 ''10.0.0.5''
      (create_zone_file ''s1'' \<lparr>core_file = None, zone_file = None, trace = []\<rparr>))
   \<and> zone_hosts (add_record ''web1'' 300 ''10.0.0.5''
      (create_zone_file ''s1'' \<lparr>core_file = None, zone_file = None, trace = []\<rparr>))
      = [''ns1'', ''web1'']"
proof -
  let ?w0 = "\<lparr>core_file = None, zone_file = None, trace = []\<rparr>"
  let ?w1 = "create_zone_file ''s1'' ?w0"
  let ?w2 = "add_record ''web1'' 300 ''10.0.0.5'' ?w1"
  have "reachable ?w0"
    by (rule reachable.start) simp
  moreover have "single_line ''s1''"
    by code_simp
  ultimately have r1: "reachable ?w1"
    by (rule reachable.create)
  have "is_token ''web1''" and "single_line ''10.0.0.5''" and "''web1'' \<notin> set (zone_hosts ?w1)"
    by code_simp+
  with r1 have r2: "reachable ?w2"
    by (rule reachable.add)
  from uniqueness_of_hostnames [of ?w2] r2 have "zone_unique ?w2"
    by blast
  moreover have "zone_hosts ?w2 = [''ns1'', ''web1'']"
    by code_simp
  ultimately show ?thesis
    using r2 by blast
qed

section \<open>Substituting the markers\<close>

text \<open>
  Claim C7, as amended.  When the discovery steps succeed and the text read from the
  Configuration Document contains the ACL marker, \<^verbatim>\<open>Init.run\<close> writes the document once:
  every occurrence of \<^verbatim>\<open># ACL\<close> is replaced by the rendered ACL block and then every
  occurrence of \<^verbatim>\<open># ZONE\<close> by the rendered zone-inclusion block.  When each marker
  occurs exactly once in the text read, in either order, the text written is the text
  read with the ACL marker replaced in place by the ACL block and the ZONE marker
  replaced in place by the zone block, everything before, between and after the two
  markers unchanged.
\<close>

theorem init_substitutes_markers:
  assumes "cidr_from_interface e = Inr sector_cidr"
    and "get_zone_from_hostname (hostname_stdout e) = Inr zone_name"
    and "core_file w = Some raw"
  shows "(py_contains acl_prefix (read_text raw) \<longrightarrow>
           run e w =
             (None,
              create_zone_file zone_name
                (w\<lparr>core_file :=
                     Some (replace zone_prefix (zone_block zone_name)
                             (replace acl_prefix (acl_block sector_cidr) (read_text raw))),
                   trace := trace w @ [Wrote CORE_FILE]\<rparr>)))
       \<and> (count_sub acl_prefix (read_text raw) = 1 \<and> count_sub zone_prefix (read_text raw) = 1
            \<and> read_text raw = pre @ acl_prefix @ mid @ zone_prefix @ post \<longrightarrow>
           core_file (snd (run e w)) =
             Some (pre @ acl_block sector_cidr @ mid @ zone_block zone_name @ post))
       \<and> (count_sub acl_prefix (read_text raw) = 1 \<and> count_sub zone_prefix (read_text raw) = 1
            \<and> read_text raw = pre @ zone_prefix @ mid @ acl_prefix @ post \<longrightarrow>
           core_file (snd (run e w)) =
             Some (pre @ zone_block zone_name @ mid @ acl_block sector_cidr @ post))"
proof (intro conjI impI)
  assume "py_contains acl_prefix (read_text raw)"
  with assms show "run e w =
             (None,
              create_zone_file zone_name
                (w\<lparr>core_file :=
                     Some (replace zone_prefix (zone_block zone_name)
                             (replace acl_prefix (acl_block sector_cidr) (read_text raw))),
                   trace := trace w @ [Wrote CORE_FILE]\<rparr>))"
    by (rule run_marker_present)
next
  assume h: "count_sub acl_prefix (read_text raw) = 1 \<and> count_sub zone_prefix (read_text raw) = 1
            \<and> read_text raw = pre @ acl_prefix @ mid @ zone_prefix @ post"
  then have "py_contains acl_prefix (read_text raw)"
    using py_contains_append [of acl_prefix pre "mid @ zone_prefix @ post"] by simp
  with assms have "core_file (snd (run e w)) =
      Some (replace zone_prefix (zone_block zone_name)
              (replace acl_prefix (acl_block sector_cidr) (read_text raw)))"
    by (simp add: run_marker_present core_file_create_zone_file)
  moreover have "replace zone_prefix (zone_block zone_name)
              (replace acl_prefix (acl_block sector_cidr) (read_text raw))
        = pre @ acl_block sector_cidr @ mid @ zone_block zone_name @ post"
    using h by (intro replace_acl_then_zone) blast+
  ultimately show "core_file (snd (run e w)) =
             Some (pre @ acl_block sector_cidr @ mid @ zone_block zone_name @ post)"
    by simp
next
  assume h: "count_sub acl_prefix (read_text raw) = 1 \<and> count_sub zone_prefix (read_text raw) = 1
            \<and> read_text raw = pre @ zone_prefix @ mid @ acl_prefix @ post"
  then have "py_contains acl_prefix (read_text raw)"
    using py_contains_append [of acl_prefix "pre @ zone_prefix @ mid" post] by simp
  with assms have "core_file (snd (run e w)) =
      Some (replace zone_prefix (zone_block zone_name)
              (replace acl_prefix (acl_block sector_cidr) (read_text raw)))"
    by (simp add: run_marker_present core_file_create_zone_file)
  moreover have "replace zone_prefix (zone_block zone_name)
              (replace acl_prefix (acl_block sector_cidr) (read_text raw))
        = pre @ zone_block zone_name @ mid @ acl_block sector_cidr @ post"
    using h by (intro replace_zone_before_acl) blast+
  ultimately show "core_file (snd (run e w)) =
             Some (pre @ zone_block zone_name @ mid @ acl_block sector_cidr @ post)"
    by simp
qed

text \<open>
  The claim as stated, that each marker is substituted exactly once in every document
  that contains the markers, fails: a document with two ACL markers gets the ACL block
  twice.
\<close>

theorem init_substitutes_markers_counterexample:
  "count_sub acl_prefix (read_text (''# ACL'' @ [LF] @ ''# ACL'' @ [LF] @ ''# ZONE'')) = 2
   \<and> acl_block \<lparr>network_address = 167772160, prefixlen = 24\<rparr>
      = ''acl {'' @ [LF] @ ''        allow net 10.0.0.0/24'' @ [LF] @ ''        drop'' @ [LF] @ ''    }''
   \<and> run \<lparr>cidr_from_interface = Inr \<lparr>network_address = 167772160, prefixlen = 24\<rparr>,
          hostname_stdout = Inr (''s1-dns'' @ [LF])\<rparr>
        \<lparr>core_file = Some (''# ACL'' @ [LF] @ ''# ACL'' @ [LF] @ ''# ZONE''),
          zone_file = Some [], trace = []\<rparr>
      = (None,
         \<lparr>core_file =
            Some (acl_block \<lparr>network_address = 167772160, prefixlen = 24\<rparr> @ [LF]
                  @ acl_block \<lparr>network_address = 167772160, prefixlen = 24\<rparr> @ [LF]
                  @ zone_block ''s1.orbitlab.internal''),
          zone_file = Some [], trace = [Wrote CORE_FILE]\<rparr>)"
proof -
  let ?raw = "''# ACL'' @ [LF] @ ''# ACL'' @ [LF] @ ''# ZONE''"
  let ?net = "\<lparr>network_address = 167772160, prefixlen = 24\<rparr>"
  let ?lit = "''acl {'' @ [LF] @ ''        allow net 10.0.0.0/24'' @ [LF] @ ''        drop'' @ [LF] @ ''    }''"
  let ?e = "\<lparr>cidr_from_interface = Inr ?net, hostname_stdout = Inr (''s1-dns'' @ [LF])\<rparr>"
  let ?w = "\<lparr>core_file = Some ?raw, zone_file = Some [], trace = []\<rparr>"
  have two: "count_sub acl_prefix (read_text ?raw) = 2"
    by code_simp
  have "get_zone_from_hostname (Inr (''s1-dns'' @ [LF])) = Inr ''s1.orbitlab.internal''"
    by code_simp
  then have z: "get_zone_from_hostname (hostname_stdout ?e) = Inr ''s1.orbitlab.internal''"
    by simp
  have present: "py_contains acl_prefix (read_text ?raw)"
    by code_simp
  have r: "replace zone_prefix (zone_block ''s1.orbitlab.internal'') (replace acl_prefix ?lit (read_text ?raw))
           = ?lit @ [LF] @ ?lit @ [LF] @ zone_block ''s1.orbitlab.internal''"
    by code_simp
  have c: "cidr_from_interface ?e = Inr ?net" and d: "core_file ?w = Some ?raw"
    by simp_all
  have "run ?e ?w =
     (None,
      create_zone_file ''s1.orbitlab.internal''
        (?w\<lparr>core_file :=
             Some (replace zone_prefix (zone_block ''s1.orbitlab.internal'')
                     (replace acl_prefix (acl_block ?net) (read_text ?raw))),
           trace := trace ?w @ [Wrote CORE_FILE]\<rparr>))"
    using c z d present by (rule run_marker_present)
  then have "run ?e ?w =
     (None,
      \<lparr>core_file = Some (acl_block ?net @ [LF] @ acl_block ?net @ [LF] @ zone_block ''s1.orbitlab.internal''),
       zone_file = Some [], trace = [Wrote CORE_FILE]\<rparr>)"
    by (simp only: acl_block_example r) (simp add: create_zone_file_def)
  with two acl_block_example show ?thesis
    by (intro conjI)
qed

theorem init_substitutes_markers_witness:
  "get_zone_from_hostname (Inr (''s1-dns'' @ [LF])) = Inr ''s1.orbitlab.internal''
   \<and> count_sub acl_prefix (read_text (''. {'' @ [LF] @ ''  # ACL'' @ [LF] @ ''  # ZONE'' @ [LF] @ ''}'')) = 1
   \<and> count_sub zone_prefix (read_text (''. {'' @ [LF] @ ''  # ACL'' @ [LF] @ ''  # ZONE'' @ [LF] @ ''}'')) = 1
   \<and> read_text (''. {'' @ [LF] @ ''  # ACL'' @ [LF] @ ''  # ZONE'' @ [LF] @ ''}'')
       = (''. {'' @ [LF] @ ''  '') @ acl_prefix @ ([LF] @ ''  '') @ zone_prefix @ ([LF] @ ''}'')
   \<and> core_file (snd (run
        \<lparr>cidr_from_interface = Inr \<lparr>network_address = 167772160, prefixlen = 24\<rparr>,
          hostname_stdout = Inr (''s1-dns'' @ [LF])\<rparr>
        \<lparr>core_file = Some (''. {'' @ [LF] @ ''  # ACL'' @ [LF] @ ''  # ZONE'' @ [LF] @ ''}''),
          zone_file = None, trace = []\<rparr>))
      = Some ((''. {'' @ [LF] @ ''  '')
              @ acl_block \<lparr>network_address = 167772160, prefixlen = 24\<rparr>
              @ ([LF] @ ''  '') @ zone_block ''s1.orbitlab.internal'' @ ([LF] @ ''}''))"
proof -
  let ?raw = "''. {'' @ [LF] @ ''  # ACL'' @ [LF] @ ''  # ZONE'' @ [LF] @ ''}''"
  let ?net = "\<lparr>network_address = 167772160, prefixlen = 24\<rparr>"
  let ?e = "\<lparr>cidr_from_interface = Inr ?net, hostname_stdout = Inr (''s1-dns'' @ [LF])\<rparr>"
  let ?w = "\<lparr>core_file = Some ?raw, zone_file = None, trace = []\<rparr>"
  have z: "get_zone_from_hostname (Inr (''s1-dns'' @ [LF])) = Inr ''s1.orbitlab.internal''"
    by code_simp
  have c1: "count_sub acl_prefix (read_text ?raw) = 1"
    by code_simp
  have c2: "count_sub zone_prefix (read_text ?raw) = 1"
    by code_simp
  have d: "read_text ?raw = (''. {'' @ [LF] @ ''  '') @ acl_prefix @ ([LF] @ ''  '') @ zone_prefix @ ([LF] @ ''}'')"
    by code_simp
  have a1: "cidr_from_interface ?e = Inr ?net"
    and a2: "get_zone_from_hostname (hostname_stdout ?e) = Inr ''s1.orbitlab.internal''"
    and a3: "core_file ?w = Some ?raw"
    using z by simp_all
  note t = init_substitutes_markers [OF a1 a2 a3, of "''. {'' @ [LF] @ ''  ''" "[LF] @ ''  ''" "[LF] @ ''}''"]
  have "core_file (snd (run ?e ?w))
      = Some ((''. {'' @ [LF] @ ''  '') @ acl_block ?net @ ([LF] @ ''  '')
              @ zone_block ''s1.orbitlab.internal'' @ ([LF] @ ''}''))"
    by (rule mp [OF t [THEN conjunct2, THEN conjunct1] conjI [OF c1 conjI [OF c2 d]]])
  then show ?thesis
    by (intro conjI z c1 c2 d)
qed

end
